theory Spec2Isabelle
  imports Main
begin

section \<open>JavaScript values shared by the breaker and the gateway\<close>

text \<open>
  An error object is read by the code through three properties only: \<open>error.name\<close>,
  \<open>error.code\<close> and \<open>error.response.status\<close> (an axios error carries \<open>response\<close> when
  the server answered). A missing property is \<open>None\<close>.
\<close>

record js_error =
  error_name :: string
  error_code :: "string option"
  error_response_status :: "nat option"

definition CircuitBreakerOpenError :: js_error where
  "CircuitBreakerOpenError =
     \<lparr>error_name = ''CircuitBreakerOpenError'', error_code = Some ''CIRCUIT_BREAKER_OPEN'',
      error_response_status = None\<rparr>"

definition CircuitBreakerTimeoutError :: js_error where
  "CircuitBreakerTimeoutError =
     \<lparr>error_name = ''CircuitBreakerTimeoutError'', error_code = Some ''CIRCUIT_BREAKER_TIMEOUT'',
      error_response_status = None\<rparr>"

text \<open>Calling a property that holds \<open>null\<close> raises a \<open>TypeError\<close>.\<close>

definition TypeError :: js_error where
  "TypeError = \<lparr>error_name = ''TypeError'', error_code = None, error_response_status = None\<rparr>"

text \<open>
  The state of a promise once nothing more can happen to it, and the behaviour of an
  asynchronous operation: it resolves or rejects some milliseconds after it was started,
  or it never settles.
\<close>

datatype 'v promise = Fulfilled 'v | Rejected js_error | Pending

datatype 'v async = Resolves 'v nat | Rejects js_error nat | NeverSettles

text \<open>
  \<open>setTimeout(f, ms)\<close>: the runtime replaces a delay below 1 or above \<open>2^31 - 1\<close> by 1.
\<close>

definition setTimeoutDelay :: "nat \<Rightarrow> nat" where
  "setTimeoutDelay ms = (if ms < 1 \<or> 2147483647 < ms then 1 else ms)"

section \<open>shared/CircuitBreaker.js: class CircuitBreaker\<close>

datatype cb_state = CLOSED | OPEN | HALF_OPEN

record cb_metrics =
  totalRequests :: nat
  successfulRequests :: nat
  failedRequests :: nat
  circuitOpenCount :: nat
  circuitCloseCount :: nat
  lastStateChange :: nat

text \<open>
  The fields of \<open>this\<close>. Dates are milliseconds since the epoch; \<open>null\<close> is \<open>None\<close>.
  A callback is \<open>None\<close> when it is \<open>null\<close>; a callback that is present returns \<open>None\<close>
  when it returns normally and \<open>Some e\<close> when it throws \<open>e\<close>. The callbacks are observers,
  as all those the repository installs are: \<open>onStateChange\<close> is given the breaker as a third
  argument, but a callback neither assigns to the breaker nor calls its methods. The
  parameter \<open>'v\<close> is the type of the values the wrapped call resolves with.
\<close>

record 'v CircuitBreaker =
  name :: string
  failureThreshold :: nat
  timeout :: nat
  resetTimeout :: nat
  monitoringPeriod :: nat
  state :: cb_state
  failures :: nat
  successes :: nat
  lastFailureTime :: "nat option"
  lastSuccessTime :: "nat option"
  nextAttemptTime :: "nat option"
  metrics :: cb_metrics
  onStateChange :: "(cb_state \<Rightarrow> cb_state \<Rightarrow> js_error option) option"
  onFailure :: "(js_error \<Rightarrow> js_error option) option"
  onSuccess :: "('v \<Rightarrow> js_error option) option"

record 'v cb_options =
  opt_name :: "string option"
  opt_failureThreshold :: "nat option"
  opt_timeout :: "nat option"
  opt_resetTimeout :: "nat option"
  opt_monitoringPeriod :: "nat option"
  opt_onStateChange :: "(cb_state \<Rightarrow> cb_state \<Rightarrow> js_error option) option"
  opt_onFailure :: "(js_error \<Rightarrow> js_error option) option"
  opt_onSuccess :: "('v \<Rightarrow> js_error option) option"

text \<open>\<open>options.x || d\<close>: a missing option, \<open>0\<close> and the empty string are falsy.\<close>

definition orNumber :: "nat option \<Rightarrow> nat \<Rightarrow> nat" where
  "orNumber x d = (case x of None \<Rightarrow> d | Some n \<Rightarrow> if n = 0 then d else n)"

definition orString :: "string option \<Rightarrow> string \<Rightarrow> string" where
  "orString x d = (case x of None \<Rightarrow> d | Some s \<Rightarrow> if s = [] then d else s)"

text \<open>The constructor, run at time \<open>now\<close>.\<close>

definition newCircuitBreaker :: "nat \<Rightarrow> 'v cb_options \<Rightarrow> 'v CircuitBreaker" where
  "newCircuitBreaker now options =
     \<lparr>name = orString (opt_name options) ''default'',
      failureThreshold = orNumber (opt_failureThreshold options) 5,
      timeout = orNumber (opt_timeout options) 60000,
      resetTimeout = orNumber (opt_resetTimeout options) 30000,
      monitoringPeriod = orNumber (opt_monitoringPeriod options) 10000,
      state = CLOSED,
      failures = 0,
      successes = 0,
      lastFailureTime = None,
      lastSuccessTime = None,
      nextAttemptTime = None,
      metrics = \<lparr>totalRequests = 0, successfulRequests = 0, failedRequests = 0,
                 circuitOpenCount = 0, circuitCloseCount = 0, lastStateChange = now\<rparr>,
      onStateChange = opt_onStateChange options,
      onFailure = opt_onFailure options,
      onSuccess = opt_onSuccess options\<rparr>"

text \<open>
  A method that can throw returns the exception (\<open>None\<close> when it returns normally), the
  calls it made to the \<open>onStateChange\<close> hook as pairs \<open>(oldState, newState)\<close>, in order,
  and the breaker as the method left it.
\<close>

type_synonym hook_call = "cb_state \<times> cb_state"

type_synonym 'v effect = "js_error option \<times> hook_call list \<times> 'v CircuitBreaker"

definition setState :: "nat \<Rightarrow> cb_state \<Rightarrow> 'v CircuitBreaker \<Rightarrow> 'v effect" where
  "setState now newState b =
     (if state b = newState then (None, [], b)
      else
        let oldState = state b;
            b1 = b\<lparr>state := newState, metrics := (metrics b)\<lparr>lastStateChange := now\<rparr>\<rparr>;
            b2 = (case newState of
                    OPEN \<Rightarrow>
                      b1\<lparr>nextAttemptTime := Some (now + resetTimeout b1),
                         metrics := (metrics b1)\<lparr>circuitOpenCount := circuitOpenCount (metrics b1) + 1\<rparr>\<rparr>
                  | HALF_OPEN \<Rightarrow> b1\<lparr>nextAttemptTime := None\<rparr>
                  | CLOSED \<Rightarrow>
                      b1\<lparr>nextAttemptTime := None, failures := 0,
                         metrics := (metrics b1)\<lparr>circuitCloseCount := circuitCloseCount (metrics b1) + 1\<rparr>\<rparr>)
        in (case onStateChange b2 of
              None \<Rightarrow> (None, [], b2)
            | Some hook \<Rightarrow> (hook oldState newState, [(oldState, newState)], b2)))"

definition recordSuccess :: "nat \<Rightarrow> 'v CircuitBreaker \<Rightarrow> 'v effect" where
  "recordSuccess now b =
     (let b1 = b\<lparr>successes := successes b + 1, failures := 0, lastSuccessTime := Some now,
                 metrics := (metrics b)\<lparr>successfulRequests := successfulRequests (metrics b) + 1\<rparr>\<rparr>
      in if state b1 = HALF_OPEN then setState now CLOSED b1 else (None, [], b1))"

definition recordFailure :: "nat \<Rightarrow> 'v CircuitBreaker \<Rightarrow> 'v effect" where
  "recordFailure now b =
     (let b1 = b\<lparr>failures := failures b + 1, lastFailureTime := Some now,
                 metrics := (metrics b)\<lparr>failedRequests := failedRequests (metrics b) + 1\<rparr>\<rparr>
      in if failureThreshold b1 \<le> failures b1 then setState now OPEN b1 else (None, [], b1))"

definition shouldAttemptReset :: "nat \<Rightarrow> 'v CircuitBreaker \<Rightarrow> bool" where
  "shouldAttemptReset now b = (case nextAttemptTime b of None \<Rightarrow> False | Some t \<Rightarrow> t \<le> now)"

text \<open>
  \<open>executeWithTimeout\<close>, started at \<open>now\<close> on a call that behaves as \<open>call\<close>. The wrapped
  function is asynchronous, as every caller in the repository passes it: it returns a
  promise and does not throw before that. No other method of the breaker runs while the
  call is awaited. The timer and the call race; a call that settles in the very
  millisecond the timer is due counts as late. When the call settles first (after \<open>d\<close>
  ms, before the timer's delay) its handler clears the timer and records the result at
  time \<open>now + d\<close>; an exception thrown by \<open>recordSuccess\<close> inside the \<open>then\<close> handler is
  passed to the chained \<open>catch\<close> handler, which records a failure and rejects with it; an
  exception thrown inside the \<open>catch\<close> handler leaves the promise pending for ever, the
  timer being cleared already. Otherwise the timer fires and only rejects the promise.
\<close>

definition executeWithTimeout ::
  "nat \<Rightarrow> 'v async \<Rightarrow> 'v CircuitBreaker \<Rightarrow> 'v promise \<times> hook_call list \<times> 'v CircuitBreaker" where
  "executeWithTimeout now call b =
     (case call of
        Resolves result d \<Rightarrow>
          if d < setTimeoutDelay (timeout b) then
            (case recordSuccess (now + d) b of
               (None, calls, b1) \<Rightarrow> (Fulfilled result, calls, b1)
             | (Some error, calls, b1) \<Rightarrow>
                 (case recordFailure (now + d) b1 of
                    (None, calls2, b2) \<Rightarrow> (Rejected error, calls @ calls2, b2)
                  | (Some error2, calls2, b2) \<Rightarrow> (Pending, calls @ calls2, b2)))
          else (Rejected CircuitBreakerTimeoutError, [], b)
      | Rejects error d \<Rightarrow>
          if d < setTimeoutDelay (timeout b) then
            (case recordFailure (now + d) b of
               (None, calls, b1) \<Rightarrow> (Rejected error, calls, b1)
             | (Some error2, calls, b1) \<Rightarrow> (Pending, calls, b1))
          else (Rejected CircuitBreakerTimeoutError, [], b)
      | NeverSettles \<Rightarrow> (Rejected CircuitBreakerTimeoutError, [], b))"

text \<open>
  The handlers stay attached to a call that lost the race: when it settles at last, at
  time \<open>now\<close>, they still record its result (\<open>resolve\<close> and \<open>reject\<close> do nothing then).
\<close>

definition settleAfterTimeout :: "nat \<Rightarrow> 'v async \<Rightarrow> 'v CircuitBreaker \<Rightarrow> 'v CircuitBreaker" where
  "settleAfterTimeout now call b =
     (case call of
        Resolves result d \<Rightarrow>
          (case recordSuccess now b of
             (None, calls, b1) \<Rightarrow> b1
           | (Some error, calls, b1) \<Rightarrow> snd (snd (recordFailure now b1)))
      | Rejects error d \<Rightarrow> snd (snd (recordFailure now b))
      | NeverSettles \<Rightarrow> b)"

text \<open>
  What one \<open>execute\<close> did: how its promise ended, whether the wrapped call was invoked,
  the hook calls, and the breaker afterwards.
\<close>

record 'v execution =
  outcome :: "'v promise"
  invoked :: bool
  hookCalls :: "hook_call list"
  breaker :: "'v CircuitBreaker"

text \<open>The \<open>catch\<close> block of \<open>execute\<close>: \<open>this.onFailure(error); throw error\<close>.\<close>

definition catchBlock :: "'v CircuitBreaker \<Rightarrow> js_error \<Rightarrow> 'v promise" where
  "catchBlock b error =
     (case onFailure b of
        None \<Rightarrow> Rejected TypeError
      | Some callback \<Rightarrow>
          (case callback error of None \<Rightarrow> Rejected error | Some thrown \<Rightarrow> Rejected thrown))"

definition execute :: "nat \<Rightarrow> 'v async \<Rightarrow> 'v CircuitBreaker \<Rightarrow> 'v execution" where
  "execute now call b =
     (let b0 = b\<lparr>metrics := (metrics b)\<lparr>totalRequests := totalRequests (metrics b) + 1\<rparr>\<rparr>
      in if state b0 = OPEN \<and> \<not> shouldAttemptReset now b0 then
           \<lparr>outcome = Rejected CircuitBreakerOpenError, invoked = False, hookCalls = [],
            breaker = b0\<rparr>
         else
           (case (if state b0 = OPEN then setState now HALF_OPEN b0 else (None, [], b0)) of
              (Some thrown, calls, b1) \<Rightarrow>
                \<lparr>outcome = Rejected thrown, invoked = False, hookCalls = calls, breaker = b1\<rparr>
            | (None, calls, b1) \<Rightarrow>
                (case executeWithTimeout now call b1 of
                   (Fulfilled result, calls2, b2) \<Rightarrow>
                     \<lparr>outcome =
                        (case onSuccess b2 of
                           None \<Rightarrow> catchBlock b2 TypeError
                         | Some callback \<Rightarrow>
                             (case callback result of
                                None \<Rightarrow> Fulfilled result
                              | Some thrown \<Rightarrow> catchBlock b2 thrown)),
                      invoked = True, hookCalls = calls @ calls2, breaker = b2\<rparr>
                 | (Rejected error, calls2, b2) \<Rightarrow>
                     \<lparr>outcome = catchBlock b2 error, invoked = True, hookCalls = calls @ calls2,
                      breaker = b2\<rparr>
                 | (Pending, calls2, b2) \<Rightarrow>
                     \<lparr>outcome = Pending, invoked = True, hookCalls = calls @ calls2,
                      breaker = b2\<rparr>)))"

definition reset :: "nat \<Rightarrow> 'v CircuitBreaker \<Rightarrow> 'v effect" where
  "reset now b =
     setState now CLOSED
       (b\<lparr>failures := 0, successes := 0, lastFailureTime := None, lastSuccessTime := None,
          nextAttemptTime := None\<rparr>)"

definition forceOpen :: "nat \<Rightarrow> 'v CircuitBreaker \<Rightarrow> 'v effect" where
  "forceOpen now b = setState now OPEN b"

definition forceClosed :: "nat \<Rightarrow> 'v CircuitBreaker \<Rightarrow> 'v effect" where
  "forceClosed now b = setState now CLOSED b"

section \<open>shared/CircuitBreaker.js: class CircuitBreakerManager\<close>

record global_metrics =
  totalBreakers :: nat
  openBreakers :: nat
  halfOpenBreakers :: nat
  closedBreakers :: nat

text \<open>The \<open>Map\<close> of breakers keeps its keys in insertion order: an association list.\<close>

record 'v CircuitBreakerManager =
  breakers :: "(string \<times> 'v CircuitBreaker) list"
  globalMetrics :: global_metrics

definition newCircuitBreakerManager :: "'v CircuitBreakerManager" where
  "newCircuitBreakerManager =
     \<lparr>breakers = [],
      globalMetrics = \<lparr>totalBreakers = 0, openBreakers = 0, halfOpenBreakers = 0,
                       closedBreakers = 0\<rparr>\<rparr>"

definition updateGlobalMetrics :: "'v CircuitBreakerManager \<Rightarrow> 'v CircuitBreakerManager" where
  "updateGlobalMetrics mgr =
     mgr\<lparr>globalMetrics :=
          \<lparr>totalBreakers = length (breakers mgr),
           openBreakers = length (filter (\<lambda>entry. state (snd entry) = OPEN) (breakers mgr)),
           halfOpenBreakers = length (filter (\<lambda>entry. state (snd entry) = HALF_OPEN) (breakers mgr)),
           closedBreakers = length (filter (\<lambda>entry. state (snd entry) = CLOSED) (breakers mgr))\<rparr>\<rparr>"

text \<open>
  \<open>getBreaker(name, options)\<close> builds a missing breaker from \<open>{ name, ...options }\<close>: a
  \<open>name\<close> among the options overrides the key.
\<close>

definition getBreaker ::
  "nat \<Rightarrow> string \<Rightarrow> 'v cb_options \<Rightarrow> 'v CircuitBreakerManager \<Rightarrow>
   'v CircuitBreaker \<times> 'v CircuitBreakerManager" where
  "getBreaker now key options mgr =
     (case map_of (breakers mgr) key of
        Some existing \<Rightarrow> (existing, mgr)
      | None \<Rightarrow>
          let created =
                newCircuitBreaker now
                  (options\<lparr>opt_name :=
                     (case opt_name options of None \<Rightarrow> Some key | Some given \<Rightarrow> Some given)\<rparr>)
          in (created, updateGlobalMetrics (mgr\<lparr>breakers := breakers mgr @ [(key, created)]\<rparr>)))"

text \<open>
  A breaker is an object shared with the manager's map: what a method does to it is seen
  through the map. The model writes the breaker back under its key.
\<close>

definition storeBreaker ::
  "string \<Rightarrow> 'v CircuitBreaker \<Rightarrow> 'v CircuitBreakerManager \<Rightarrow> 'v CircuitBreakerManager" where
  "storeBreaker key b mgr =
     mgr\<lparr>breakers := map (\<lambda>entry. if fst entry = key then (key, b) else entry) (breakers mgr)\<rparr>"

text \<open>The options of \<open>getBreaker(name)\<close> called with a name only (\<open>options = {}\<close>).\<close>

definition noOptions :: "'v cb_options" where
  "noOptions =
     \<lparr>opt_name = None, opt_failureThreshold = None, opt_timeout = None, opt_resetTimeout = None,
      opt_monitoringPeriod = None, opt_onStateChange = None, opt_onFailure = None,
      opt_onSuccess = None\<rparr>"

section \<open>gateway/GatewayService.js: retries\<close>

record axios_response =
  status :: nat
  data :: string

definition isRetryableError :: "js_error \<Rightarrow> bool" where
  "isRetryableError error =
     (case error_response_status error of
        Some httpStatus \<Rightarrow> 500 \<le> httpStatus
      | None \<Rightarrow>
          (case error_code error of
             None \<Rightarrow> False
           | Some c \<Rightarrow> c \<in> set [''ECONNREFUSED'', ''ETIMEDOUT'', ''ENOTFOUND'']))"

text \<open>
  What \<open>makeRequestWithRetry\<close> did: how its promise settles (with the time from its start),
  the number of \<open>axios\<close> calls it made, and the delays it slept, in order.
\<close>

record 'v retry_run =
  settled :: "'v async"
  attempts :: nat
  delays :: "nat list"

text \<open>\<open>throw lastError\<close> when no attempt was made: the value thrown is \<open>undefined\<close>.\<close>

definition thrownUndefined :: js_error where
  "thrownUndefined = \<lparr>error_name = [], error_code = None, error_response_status = None\<rparr>"

text \<open>
  The \<open>for\<close> loop at index \<open>i\<close>. The parameter \<open>axios\<close> gives the behaviour of the
  \<open>i\<close>-th call \<open>axios(config)\<close>; \<open>elapsed\<close> is the time since the loop started.
\<close>

function retryLoop ::
  "(nat \<Rightarrow> 'v async) \<Rightarrow> nat \<Rightarrow> nat \<Rightarrow> nat \<Rightarrow> nat list \<Rightarrow> js_error option \<Rightarrow> 'v retry_run" where
  "retryLoop axios retries i elapsed slept lastError =
     (if i \<le> retries then
        (case axios i of
           Resolves response d \<Rightarrow>
             \<lparr>settled = Resolves response (elapsed + d), attempts = i + 1, delays = slept\<rparr>
         | Rejects error d \<Rightarrow>
             if i < retries \<and> isRetryableError error then
               retryLoop axios retries (i + 1)
                 (elapsed + d + setTimeoutDelay (2 ^ i * 1000)) (slept @ [2 ^ i * 1000]) (Some error)
             else \<lparr>settled = Rejects error (elapsed + d), attempts = i + 1, delays = slept\<rparr>
         | NeverSettles \<Rightarrow> \<lparr>settled = NeverSettles, attempts = i + 1, delays = slept\<rparr>)
      else
        \<lparr>settled =
           Rejects (case lastError of None \<Rightarrow> thrownUndefined | Some error \<Rightarrow> error) elapsed,
         attempts = i, delays = slept\<rparr>)"
  by pat_completeness auto
termination
  by (relation "measure (\<lambda>(axios, retries, i, elapsed, slept, lastError). retries + 1 - i)") auto

text \<open>\<open>makeRequestWithRetry(config, retries = 3)\<close>: a missing argument is 3.\<close>

definition makeRequestWithRetry :: "(nat \<Rightarrow> 'v async) \<Rightarrow> nat option \<Rightarrow> 'v retry_run" where
  "makeRequestWithRetry axios retries =
     retryLoop axios (case retries of None \<Rightarrow> 3 | Some n \<Rightarrow> n) 0 0 [] None"

section \<open>gateway/GatewayService.js: class GatewayService\<close>

record service_config =
  service_url :: string
  service_timeout :: nat
  service_retries :: nat

record rate_limit_entry =
  count :: nat
  resetTime :: nat

text \<open>
  The fields of the gateway that the request path reads and writes: the object literal
  \<open>services\<close> (its own properties, in order), the breaker manager and the rate-limit map.
\<close>

record GatewayService =
  services :: "(string \<times> service_config) list"
  circuitBreakerManager :: "axios_response CircuitBreakerManager"
  rateLimitStore :: "string \<rightharpoonup> rate_limit_entry"

text \<open>
  \<open>object[key]\<close> on an object literal: an own property, else a property inherited from
  \<open>Object.prototype\<close> (each of them a function or an object, so truthy), else \<open>undefined\<close>.
\<close>

datatype 'a js_property = Own 'a | Inherited | Undefined

definition objectPrototypeKeys :: "string list" where
  "objectPrototypeKeys =
     [''constructor'', ''__proto__'', ''hasOwnProperty'', ''isPrototypeOf'',
      ''propertyIsEnumerable'', ''toLocaleString'', ''toString'', ''valueOf'',
      ''__defineGetter__'', ''__defineSetter__'', ''__lookupGetter__'', ''__lookupSetter__'']"

definition getProperty :: "(string \<times> 'a) list \<Rightarrow> string \<Rightarrow> 'a js_property" where
  "getProperty object key =
     (case map_of object key of
        Some v \<Rightarrow> Own v
      | None \<Rightarrow> if key \<in> set objectPrototypeKeys then Inherited else Undefined)"

text \<open>The callbacks the gateway installs only write to the console.\<close>

definition gatewayBreakerOptions :: "nat \<Rightarrow> 'v cb_options" where
  "gatewayBreakerOptions serviceTimeout =
     \<lparr>opt_name = None, opt_failureThreshold = Some 5, opt_timeout = Some serviceTimeout,
      opt_resetTimeout = Some 30000, opt_monitoringPeriod = None,
      opt_onStateChange = Some (\<lambda>oldState newState. None),
      opt_onFailure = Some (\<lambda>error. None),
      opt_onSuccess = Some (\<lambda>result. None)\<rparr>"

fun setupCircuitBreakers ::
  "nat \<Rightarrow> (string \<times> service_config) list \<Rightarrow> axios_response CircuitBreakerManager \<Rightarrow>
   axios_response CircuitBreakerManager" where
  "setupCircuitBreakers now [] mgr = mgr"
| "setupCircuitBreakers now ((serviceName, service) # rest) mgr =
     setupCircuitBreakers now rest
       (snd (getBreaker now serviceName (gatewayBreakerOptions (service_timeout service)) mgr))"

definition newGatewayService :: "nat \<Rightarrow> GatewayService" where
  "newGatewayService now =
     (let configured =
            [(''usuarios'', \<lparr>service_url = ''http://localhost:3001'', service_timeout = 5000,
                             service_retries = 3\<rparr>),
             (''pagos'', \<lparr>service_url = ''http://localhost:3002'', service_timeout = 5000,
                          service_retries = 3\<rparr>),
             (''catalogo'', \<lparr>service_url = ''http://localhost:3004'', service_timeout = 5000,
                             service_retries = 3\<rparr>)]
      in \<lparr>services = configured,
          circuitBreakerManager = setupCircuitBreakers now configured newCircuitBreakerManager,
          rateLimitStore = Map.empty\<rparr>)"

subsection \<open>Middleware\<close>

record request =
  ip :: "string option"

datatype json_body =
    ErrorJson string "string option" "string option"
  | RateLimitJson string int
  | DataJson string string

record reply =
  statusCode :: nat
  body :: json_body

text \<open>A middleware either calls \<open>next\<close> or writes the response and does not.\<close>

datatype mw_step = Next | Responded reply

type_synonym middleware = "request \<Rightarrow> GatewayService \<Rightarrow> mw_step \<times> GatewayService"

definition windowMs :: nat where
  "windowMs = 15 * 60 * 1000"

definition maxRequests :: nat where
  "maxRequests = 100"

text \<open>\<open>Math.ceil(a / b)\<close> for a positive \<open>b\<close>.\<close>

definition ceilDiv :: "int \<Rightarrow> int \<Rightarrow> int" where
  "ceilDiv a b = - ((- a) div b)"

text \<open>\<open>req.ip || 'unknown'\<close>\<close>

definition clientIdOf :: "request \<Rightarrow> string" where
  "clientIdOf req = orString (ip req) ''unknown''"

definition rateLimit :: "nat \<Rightarrow> middleware" where
  "rateLimit now req gw =
     (let clientId = clientIdOf req;
          stored =
            (case rateLimitStore gw clientId of
               None \<Rightarrow> \<lparr>count = 0, resetTime = now + windowMs\<rparr>
             | Some entry \<Rightarrow> entry);
          clientData =
            (if resetTime stored < now then \<lparr>count = 0, resetTime = now + windowMs\<rparr>
             else stored)
      in if maxRequests \<le> count clientData then
           (Responded
              \<lparr>statusCode = 429,
               body = RateLimitJson ''Rate limit exceeded''
                        (ceilDiv (int (resetTime clientData) - int now) 1000)\<rparr>,
            gw\<lparr>rateLimitStore := (rateLimitStore gw)(clientId \<mapsto> clientData)\<rparr>)
         else
           (Next,
            gw\<lparr>rateLimitStore :=
                 (rateLimitStore gw)(clientId \<mapsto> clientData\<lparr>count := count clientData + 1\<rparr>)\<rparr>))"

text \<open>
  \<open>executeMiddleware\<close>: the chain in registration order. The result lists the names of the
  middleware that ran; the step is \<open>Next\<close> when the chain reached the route handler.
\<close>

fun executeMiddleware ::
  "(string \<times> middleware) list \<Rightarrow> request \<Rightarrow> GatewayService \<Rightarrow>
   string list \<times> mw_step \<times> GatewayService" where
  "executeMiddleware [] req gw = ([], Next, gw)"
| "executeMiddleware ((label, handler) # rest) req gw =
     (case handler req gw of
        (Next, gw1) \<Rightarrow>
          (case executeMiddleware rest req gw1 of (labels, step, gw2) \<Rightarrow> (label # labels, step, gw2))
      | (Responded answer, gw1) \<Rightarrow> ([label], Responded answer, gw1))"

subsection \<open>Forwarding\<close>

text \<open>
  \<open>makeServiceRequest\<close>: the promise of \<open>makeRequestWithRetry(config, service.retries)\<close>.
  For an inherited property \<open>service.retries\<close> is \<open>undefined\<close>.
\<close>

definition makeServiceRequest ::
  "string \<Rightarrow> (nat \<Rightarrow> axios_response async) \<Rightarrow> GatewayService \<Rightarrow> axios_response async" where
  "makeServiceRequest serviceName axios gw =
     settled
       (makeRequestWithRetry axios
          (case getProperty (services gw) serviceName of
             Own service \<Rightarrow> Some (service_retries service)
           | Inherited \<Rightarrow> None
           | Undefined \<Rightarrow> None))"

text \<open>The \<open>catch\<close> block of \<open>processRequest\<close>.\<close>

definition errorReply :: "string \<Rightarrow> js_error \<Rightarrow> reply" where
  "errorReply serviceName error =
     (if error_name error = ''CircuitBreakerOpenError'' then
        \<lparr>statusCode = 503,
         body = ErrorJson ''Servicio temporalmente no disponible'' (Some serviceName) (Some ''OPEN'')\<rparr>
      else if error_name error = ''CircuitBreakerTimeoutError'' then
        \<lparr>statusCode = 504,
         body = ErrorJson ''Timeout del servicio'' (Some serviceName) (Some ''TIMEOUT'')\<rparr>
      else
        (case error_response_status error of
           Some downstream \<Rightarrow>
             \<lparr>statusCode = downstream,
              body = ErrorJson ''Error en microservicio'' (Some serviceName) None\<rparr>
         | None \<Rightarrow>
             if error_code error = Some ''ECONNREFUSED'' then
               \<lparr>statusCode = 503,
                body = ErrorJson ''Servicio no disponible'' (Some serviceName) None\<rparr>
             else
               \<lparr>statusCode = 500, body = ErrorJson ''Error interno del gateway'' None None\<rparr>))"

text \<open>
  \<open>processRequest\<close> at time \<open>now\<close>. The reply is \<open>None\<close> when no response is ever written.
\<close>

definition processRequest ::
  "nat \<Rightarrow> string \<Rightarrow> (nat \<Rightarrow> axios_response async) \<Rightarrow> GatewayService \<Rightarrow>
   reply option \<times> GatewayService" where
  "processRequest now serviceName axios gw =
     (case getProperty (services gw) serviceName of
        Undefined \<Rightarrow>
          (Some \<lparr>statusCode = 404, body = ErrorJson ''Servicio no encontrado'' None None\<rparr>, gw)
      | _ \<Rightarrow>
          (case getBreaker now serviceName noOptions (circuitBreakerManager gw) of
             (circuitBreaker, mgr) \<Rightarrow>
               let run = execute now (makeServiceRequest serviceName axios gw) circuitBreaker;
                   gw1 = gw\<lparr>circuitBreakerManager := storeBreaker serviceName (breaker run) mgr\<rparr>
               in (case outcome run of
                     Fulfilled response \<Rightarrow>
                       (Some \<lparr>statusCode = status response,
                              body = DataJson (data response) serviceName\<rparr>, gw1)
                   | Rejected error \<Rightarrow> (Some (errorReply serviceName error), gw1)
                   | Pending \<Rightarrow> (None, gw1))))"

section \<open>Scenarios and notions used in the statements\<close>

text \<open>Calls of \<open>execute\<close> made one after the other, each awaited before the next starts.\<close>

fun executeSequentially :: "(nat \<times> 'v async) list \<Rightarrow> 'v CircuitBreaker \<Rightarrow> 'v CircuitBreaker" where
  "executeSequentially [] b = b"
| "executeSequentially ((now, call) # rest) b =
     executeSequentially rest (breaker (execute now call b))"

text \<open>Requests of one client passing through the rate limiter at the given times.\<close>

fun rateLimitAll :: "nat list \<Rightarrow> request \<Rightarrow> GatewayService \<Rightarrow> mw_step list \<times> GatewayService" where
  "rateLimitAll [] req gw = ([], gw)"
| "rateLimitAll (now # rest) req gw =
     (case rateLimit now req gw of
        (step, gw1) \<Rightarrow>
          (case rateLimitAll rest req gw1 of (steps, gw2) \<Rightarrow> (step # steps, gw2)))"

text \<open>A wrapped call that rejects before the timer of a breaker with timeout \<open>ms\<close> fires.\<close>

definition rejectsWithin :: "nat \<Rightarrow> nat \<times> 'v async \<Rightarrow> bool" where
  "rejectsWithin ms timed =
     (case snd timed of Rejects error d \<Rightarrow> d < setTimeoutDelay ms | _ \<Rightarrow> False)"

text \<open>The time at which a call started at \<open>fst timed\<close> settles.\<close>

definition settledAt :: "nat \<times> 'v async \<Rightarrow> nat" where
  "settledAt timed =
     (case snd timed of
        Resolves result d \<Rightarrow> fst timed + d
      | Rejects error d \<Rightarrow> fst timed + d
      | NeverSettles \<Rightarrow> fst timed)"

text \<open>
  The breaker that \<open>microservicios/pagos/server.js\<close> creates for the user service. The call
  it wraps, \<open>axios.get(url)\<close>, has no timeout of its own.
\<close>

definition pagosBreakerOptions :: "'v cb_options" where
  "pagosBreakerOptions =
     \<lparr>opt_name = None, opt_failureThreshold = Some 3, opt_timeout = Some 5000,
      opt_resetTimeout = Some 30000, opt_monitoringPeriod = None,
      opt_onStateChange = Some (\<lambda>oldState newState. None),
      opt_onFailure = Some (\<lambda>error. None),
      opt_onSuccess = Some (\<lambda>result. None)\<rparr>"

definition usuariosBreaker :: "axios_response CircuitBreaker" where
  "usuariosBreaker = fst (getBreaker 0 ''usuarios'' pagosBreakerOptions newCircuitBreakerManager)"

text \<open>The \<open>onStateChange\<close> hook, if there is one, returns normally whenever it is called.\<close>

definition hookReturns :: "'v CircuitBreaker \<Rightarrow> bool" where
  "hookReturns b =
     (case onStateChange b of
        None \<Rightarrow> True
      | Some hook \<Rightarrow> \<forall>oldState newState. hook oldState newState = None)"

text \<open>
  A list of hook calls that follows the state from \<open>s\<close> to \<open>s'\<close>: every call reports a
  change, starting from the state the call before it ended in.
\<close>

fun transitions :: "cb_state \<Rightarrow> hook_call list \<Rightarrow> cb_state \<Rightarrow> bool" where
  "transitions s [] s' \<longleftrightarrow> s = s'"
| "transitions s ((oldState, newState) # rest) s' \<longleftrightarrow>
     oldState = s \<and> oldState \<noteq> newState \<and> transitions newState rest s'"

text \<open>
  A breaker configured as the gateway configures its own, opened by five calls that are
  rejected with an ordinary \<open>Error\<close>.
\<close>

definition plainError :: js_error where
  "plainError = \<lparr>error_name = ''Error'', error_code = None, error_response_status = None\<rparr>"

definition fiveFailures :: "(nat \<times> nat async) list" where
  "fiveFailures =
     [(0, Rejects plainError 10), (100, Rejects plainError 10), (200, Rejects plainError 10),
      (300, Rejects plainError 10), (400, Rejects plainError 10)]"

definition openedBreaker :: "nat CircuitBreaker" where
  "openedBreaker =
     executeSequentially fiveFailures (newCircuitBreaker 0 (gatewayBreakerOptions 5000))"

section \<open>Properties of the circuit breaker\<close>

lemma execute_open_rejected:
  assumes "state b = OPEN" and "nextAttemptTime b = Some t" and "now < t"
  shows "execute now call b =
           \<lparr>outcome = Rejected CircuitBreakerOpenError, invoked = False, hookCalls = [],
            breaker = b\<lparr>metrics := (metrics b)\<lparr>totalRequests := totalRequests (metrics b) + 1\<rparr>\<rparr>\<rparr>"
  using assms by (simp add: execute_def shouldAttemptReset_def Let_def)

lemma execute_rejects_closed_below:
  assumes "state b = CLOSED" and "d < setTimeoutDelay (timeout b)"
    and "failures b + 1 < failureThreshold b"
  shows "breaker (execute now (Rejects e d) b) =
           b\<lparr>failures := failures b + 1, lastFailureTime := Some (now + d),
             metrics := (metrics b)\<lparr>totalRequests := totalRequests (metrics b) + 1,
                                   failedRequests := failedRequests (metrics b) + 1\<rparr>\<rparr>"
  using assms
  by (simp add: execute_def executeWithTimeout_def recordFailure_def Let_def)

lemma execute_rejects_closed_reach:
  assumes "state b = CLOSED" and "d < setTimeoutDelay (timeout b)"
    and "failureThreshold b \<le> failures b + 1"
  shows "breaker (execute now (Rejects e d) b) =
           b\<lparr>state := OPEN, failures := failures b + 1, lastFailureTime := Some (now + d),
             nextAttemptTime := Some (now + d + resetTimeout b),
             metrics := (metrics b)\<lparr>totalRequests := totalRequests (metrics b) + 1,
                                   failedRequests := failedRequests (metrics b) + 1,
                                   lastStateChange := now + d,
                                   circuitOpenCount := circuitOpenCount (metrics b) + 1\<rparr>\<rparr>"
  using assms
  by (simp add: execute_def executeWithTimeout_def recordFailure_def setState_def Let_def
      split: option.splits)

lemma rejectsWithinE:
  assumes "rejectsWithin ms timed"
  obtains now e d where "timed = (now, Rejects e d)" and "d < setTimeoutDelay ms"
  using assms by (cases timed; cases "snd timed") (auto simp: rejectsWithin_def)

lemma executeSequentially_append:
  "executeSequentially (xs @ ys) b = executeSequentially ys (executeSequentially xs b)"
  by (induction xs arbitrary: b) auto

text \<open>
  While the failure count stays below the threshold, a run of rejected calls leaves a
  closed breaker closed and counts each of them.
\<close>

lemma run_below_threshold:
  assumes "state b = CLOSED" and "list_all (rejectsWithin (timeout b)) calls"
    and "failures b + length calls < failureThreshold b"
  shows "state (executeSequentially calls b) = CLOSED \<and>
         failures (executeSequentially calls b) = failures b + length calls \<and>
         failureThreshold (executeSequentially calls b) = failureThreshold b \<and>
         timeout (executeSequentially calls b) = timeout b \<and>
         resetTimeout (executeSequentially calls b) = resetTimeout b \<and>
         onStateChange (executeSequentially calls b) = onStateChange b"
  using assms
proof (induction calls arbitrary: b)
  case Nil
  then show ?case by simp
next
  case (Cons timed rest)
  from Cons.prems(2) obtain now e d
    where timed: "timed = (now, Rejects e d)" and d: "d < setTimeoutDelay (timeout b)"
    by (auto elim: rejectsWithinE)
  let ?b1 = "breaker (execute now (Rejects e d) b)"
  from Cons.prems(3) have below: "failures b + 1 < failureThreshold b" by simp
  have step: "?b1 = b\<lparr>failures := failures b + 1, lastFailureTime := Some (now + d),
             metrics := (metrics b)\<lparr>totalRequests := totalRequests (metrics b) + 1,
                                   failedRequests := failedRequests (metrics b) + 1\<rparr>\<rparr>"
    by (rule execute_rejects_closed_below [OF Cons.prems(1) d below])
  have "state (executeSequentially rest ?b1) = CLOSED \<and>
         failures (executeSequentially rest ?b1) = failures ?b1 + length rest \<and>
         failureThreshold (executeSequentially rest ?b1) = failureThreshold ?b1 \<and>
         timeout (executeSequentially rest ?b1) = timeout ?b1 \<and>
         resetTimeout (executeSequentially rest ?b1) = resetTimeout ?b1 \<and>
         onStateChange (executeSequentially rest ?b1) = onStateChange ?b1"
  proof (rule Cons.IH)
    show "state ?b1 = CLOSED" using Cons.prems(1) by (simp add: step)
    show "list_all (rejectsWithin (timeout ?b1)) rest" using Cons.prems(2) by (simp add: step)
    show "failures ?b1 + length rest < failureThreshold ?b1" using Cons.prems(3) by (simp add: step)
  qed
  then show ?case by (simp add: timed step)
qed

text \<open>
  The run that reaches the threshold: the breaker it leaves is OPEN, has counted
  \<open>failureThreshold\<close> failures and waits \<open>resetTimeout\<close> from the last of them.
\<close>

lemma run_reaches_threshold:
  assumes closed: "state b = CLOSED" and zero: "failures b = 0"
    and positive: "0 < failureThreshold b"
    and exactly: "length calls = failureThreshold b"
    and failing: "list_all (rejectsWithin (timeout b)) calls"
  shows "state (executeSequentially calls b) = OPEN \<and>
         failures (executeSequentially calls b) = failureThreshold b \<and>
         nextAttemptTime (executeSequentially calls b) =
           Some (settledAt (last calls) + resetTimeout b) \<and>
         failureThreshold (executeSequentially calls b) = failureThreshold b \<and>
         timeout (executeSequentially calls b) = timeout b \<and>
         resetTimeout (executeSequentially calls b) = resetTimeout b \<and>
         onStateChange (executeSequentially calls b) = onStateChange b"
proof -
  from positive exactly have nonempty: "calls \<noteq> []" by auto
  then have split: "calls = butlast calls @ [last calls]" by simp
  let ?b1 = "executeSequentially (butlast calls) b"
  have front: "list_all (rejectsWithin (timeout b)) (butlast calls)"
    using failing by (auto simp: list_all_iff dest: in_set_butlastD)
  have "failures b + length (butlast calls) < failureThreshold b"
    using zero exactly positive by simp
  from run_below_threshold [OF closed front this]
  have b1: "state ?b1 = CLOSED" "failures ?b1 = failures b + length (butlast calls)"
    "failureThreshold ?b1 = failureThreshold b" "timeout ?b1 = timeout b"
    "resetTimeout ?b1 = resetTimeout b" "onStateChange ?b1 = onStateChange b"
    by simp_all
  from failing nonempty have "rejectsWithin (timeout b) (last calls)"
    by (simp add: list_all_iff)
  then obtain now e d where lst: "last calls = (now, Rejects e d)"
    and d: "d < setTimeoutDelay (timeout ?b1)"
    by (auto elim: rejectsWithinE simp: b1)
  have reach: "failureThreshold ?b1 \<le> failures ?b1 + 1"
    using zero exactly nonempty by (simp add: b1)
  have final: "executeSequentially calls b = breaker (execute now (Rejects e d) ?b1)"
    by (subst split) (simp add: executeSequentially_append lst)
  note opened = execute_rejects_closed_reach [OF b1(1) d reach, of now e]
  have "failures ?b1 + 1 = failureThreshold b"
    using zero exactly positive by (simp add: b1)
  then have cnt: "failures (executeSequentially calls b) = failureThreshold b"
    by (simp add: final opened)
  have st: "state (executeSequentially calls b) = OPEN"
    by (simp add: final opened)
  have nxt: "nextAttemptTime (executeSequentially calls b) =
               Some (settledAt (last calls) + resetTimeout b)"
    by (simp add: final opened lst settledAt_def b1(5))
  have cfg: "failureThreshold (executeSequentially calls b) = failureThreshold b"
    "timeout (executeSequentially calls b) = timeout b"
    "resetTimeout (executeSequentially calls b) = resetTimeout b"
    "onStateChange (executeSequentially calls b) = onStateChange b"
    by (simp_all add: final opened b1(3-6))
  from st cnt nxt cfg show ?thesis by (intro conjI)
qed

text \<open>
  Rejections that reach the threshold. A breaker that is CLOSED with no failure counted,
  whose wrapped call then rejects (before the timer) in exactly \<open>failureThreshold\<close>
  consecutive \<open>execute\<close> calls: it is still CLOSED after every shorter run and OPEN after
  the last call, with \<open>nextAttemptTime\<close> set \<open>resetTimeout\<close> after that failure. Any
  \<open>execute\<close> started before \<open>nextAttemptTime\<close> is then rejected with
  \<open>CircuitBreakerOpenError\<close>, the wrapped call is not invoked, and \<open>totalRequests\<close> is
  incremented all the same. The threshold is positive for every breaker the constructor
  builds (\<open>newCircuitBreaker_threshold\<close>).
\<close>

lemma rejections_open_at_threshold:
  assumes closed: "state b = CLOSED" and zero: "failures b = 0"
    and positive: "0 < failureThreshold b"
    and exactly: "length calls = failureThreshold b"
    and failing: "list_all (rejectsWithin (timeout b)) calls"
  shows "(\<forall>k < failureThreshold b. state (executeSequentially (take k calls) b) = CLOSED) \<and>
         state (executeSequentially calls b) = OPEN \<and>
         nextAttemptTime (executeSequentially calls b) =
           Some (settledAt (last calls) + resetTimeout b) \<and>
         (\<forall>now call. now < settledAt (last calls) + resetTimeout b \<longrightarrow>
            outcome (execute now call (executeSequentially calls b)) =
              Rejected CircuitBreakerOpenError \<and>
            \<not> invoked (execute now call (executeSequentially calls b)) \<and>
            state (breaker (execute now call (executeSequentially calls b))) = OPEN \<and>
            totalRequests (metrics (breaker (execute now call (executeSequentially calls b)))) =
              totalRequests (metrics (executeSequentially calls b)) + 1)"
proof -
  have prefix: "state (executeSequentially (take k calls) b) = CLOSED"
    if "k < failureThreshold b" for k
  proof -
    have "list_all (rejectsWithin (timeout b)) (take k calls)"
      using failing by (auto simp: list_all_iff dest: in_set_takeD)
    moreover have "failures b + length (take k calls) < failureThreshold b"
      using that zero exactly by simp
    ultimately show ?thesis using run_below_threshold [OF closed] by blast
  qed
  from run_reaches_threshold [OF closed zero positive exactly failing]
  have st: "state (executeSequentially calls b) = OPEN"
    and nxt: "nextAttemptTime (executeSequentially calls b) =
                Some (settledAt (last calls) + resetTimeout b)"
    by simp_all
  have after:
    "outcome (execute t call (executeSequentially calls b)) = Rejected CircuitBreakerOpenError \<and>
     \<not> invoked (execute t call (executeSequentially calls b)) \<and>
     state (breaker (execute t call (executeSequentially calls b))) = OPEN \<and>
     totalRequests (metrics (breaker (execute t call (executeSequentially calls b)))) =
       totalRequests (metrics (executeSequentially calls b)) + 1"
    if "t < settledAt (last calls) + resetTimeout b" for t call
    by (simp add: execute_open_rejected [OF st nxt that] st)
  from prefix st nxt after show ?thesis by blast
qed

lemma newCircuitBreaker_threshold: "0 < failureThreshold (newCircuitBreaker now options)"
  by (simp add: newCircuitBreaker_def orNumber_def split: option.splits)

lemma rejections_open_at_threshold_example:
  "state (executeSequentially
            [(0, Rejects TypeError 10), (100, Rejects TypeError 10), (200, Rejects TypeError 10),
             (300, Rejects TypeError 10), (400, Rejects TypeError 10)]
            (newCircuitBreaker 0 (gatewayBreakerOptions 5000) :: nat CircuitBreaker)) = OPEN \<and>
   state (executeSequentially
            (take 4 [(0, Rejects TypeError 10), (100, Rejects TypeError 10), (200, Rejects TypeError 10),
             (300, Rejects TypeError 10), (400, Rejects TypeError 10)])
            (newCircuitBreaker 0 (gatewayBreakerOptions 5000) :: nat CircuitBreaker)) = CLOSED \<and>
   outcome (execute 30409 (Resolves 7 1)
     (executeSequentially
            [(0, Rejects TypeError 10), (100, Rejects TypeError 10), (200, Rejects TypeError 10),
             (300, Rejects TypeError 10), (400, Rejects TypeError 10)]
            (newCircuitBreaker 0 (gatewayBreakerOptions 5000) :: nat CircuitBreaker))) =
     Rejected CircuitBreakerOpenError"
proof -
  let ?b = "newCircuitBreaker 0 (gatewayBreakerOptions 5000) :: nat CircuitBreaker"
  let ?calls = "[(0, Rejects TypeError 10), (100, Rejects TypeError 10), (200, Rejects TypeError 10),
             (300, Rejects TypeError 10), (400::nat, Rejects TypeError 10 :: nat async)]"
  have config: "failureThreshold ?b = 5" "timeout ?b = 5000" "resetTimeout ?b = 30000"
    by (simp_all add: newCircuitBreaker_def gatewayBreakerOptions_def orNumber_def)
  have h1: "state ?b = CLOSED" and h2: "failures ?b = 0"
    by (simp_all add: newCircuitBreaker_def)
  have h3: "0 < failureThreshold ?b" and h4: "length ?calls = failureThreshold ?b"
    by (simp_all add: config)
  have h5: "list_all (rejectsWithin (timeout ?b)) ?calls"
    by (simp add: config rejectsWithin_def setTimeoutDelay_def)
  note run = rejections_open_at_threshold [OF h1 h2 h3 h4 h5]
  have shorter: "state (executeSequentially (take 4 ?calls) ?b) = CLOSED"
    using run [THEN conjunct1, rule_format, of 4] by (simp add: config)
  have opened: "state (executeSequentially ?calls ?b) = OPEN"
    using run [THEN conjunct2, THEN conjunct1] by simp
  have rejected: "outcome (execute 30409 (Resolves 7 1) (executeSequentially ?calls ?b)) =
      Rejected CircuitBreakerOpenError"
    using run [THEN conjunct2, THEN conjunct2, THEN conjunct2, rule_format, of 30409 "Resolves 7 1"]
    by (simp add: config settledAt_def)
  from opened shorter rejected show ?thesis by (intro conjI)
qed

lemma shouldAttemptReset_metrics [simp]:
  "shouldAttemptReset now (b\<lparr>metrics := m\<rparr>) = shouldAttemptReset now b"
  by (simp add: shouldAttemptReset_def)

subsection \<open>Timeouts\<close>

text \<open>
  When the wrapped call never settles, the timer rejects the promise and nothing else
  happens: \<open>recordFailure\<close> is called from the handler of the call's own rejection only.
\<close>

lemma execute_never_settles:
  assumes "state b \<noteq> OPEN"
  shows "execute now NeverSettles b =
           \<lparr>outcome = catchBlock b CircuitBreakerTimeoutError, invoked = True, hookCalls = [],
            breaker = b\<lparr>metrics := (metrics b)\<lparr>totalRequests := totalRequests (metrics b) + 1\<rparr>\<rparr>\<rparr>"
  using assms
  by (simp add: execute_def executeWithTimeout_def catchBlock_def Let_def)

text \<open>
  A call that settles only after the timer fired is recorded then, as what it turned out
  to be: a late success counts as a success and clears the failure count.
\<close>

lemma late_success_clears_failures:
  assumes "state b \<noteq> HALF_OPEN"
  shows "failures (settleAfterTimeout now (Resolves v d) b) = 0 \<and>
         successes (settleAfterTimeout now (Resolves v d) b) = successes b + 1 \<and>
         state (settleAfterTimeout now (Resolves v d) b) = state b"
  using assms by (simp add: settleAfterTimeout_def recordSuccess_def Let_def)

lemma late_failure_is_counted:
  assumes "failures b + 1 < failureThreshold b"
  shows "failures (settleAfterTimeout now (Rejects e d) b) = failures b + 1 \<and>
         state (settleAfterTimeout now (Rejects e d) b) = state b"
  using assms by (simp add: settleAfterTimeout_def recordFailure_def Let_def)

text \<open>
  Calls that time out are not counted, however many there are: the breaker stays CLOSED.
\<close>

lemma timeouts_leave_closed:
  assumes "state b = CLOSED" and "list_all (\<lambda>timed. snd timed = NeverSettles) calls"
  shows "state (executeSequentially calls b) = CLOSED \<and>
         failures (executeSequentially calls b) = failures b \<and>
         failedRequests (metrics (executeSequentially calls b)) = failedRequests (metrics b) \<and>
         totalRequests (metrics (executeSequentially calls b)) =
           totalRequests (metrics b) + length calls"
  using assms
proof (induction calls arbitrary: b)
  case Nil
  then show ?case by simp
next
  case (Cons timed rest)
  from Cons.prems(2) obtain now where timed: "timed = (now, NeverSettles)"
    by (cases timed) auto
  let ?b1 = "b\<lparr>metrics := (metrics b)\<lparr>totalRequests := totalRequests (metrics b) + 1\<rparr>\<rparr>"
  from Cons.prems(1) have step: "breaker (execute now NeverSettles b) = ?b1"
    by (simp add: execute_never_settles)
  have "state (executeSequentially rest ?b1) = CLOSED \<and>
         failures (executeSequentially rest ?b1) = failures ?b1 \<and>
         failedRequests (metrics (executeSequentially rest ?b1)) = failedRequests (metrics ?b1) \<and>
         totalRequests (metrics (executeSequentially rest ?b1)) =
           totalRequests (metrics ?b1) + length rest"
  proof (rule Cons.IH)
    show "state ?b1 = CLOSED" using Cons.prems(1) by simp
    show "list_all (\<lambda>timed. snd timed = NeverSettles) rest" using Cons.prems(2) by simp
  qed
  then show ?case by (simp add: timed step)
qed

lemma usuariosBreaker_eq:
  "usuariosBreaker =
     \<lparr>name = ''usuarios'', failureThreshold = 3, timeout = 5000, resetTimeout = 30000,
      monitoringPeriod = 10000, state = CLOSED, failures = 0, successes = 0,
      lastFailureTime = None, lastSuccessTime = None, nextAttemptTime = None,
      metrics = \<lparr>totalRequests = 0, successfulRequests = 0, failedRequests = 0,
                 circuitOpenCount = 0, circuitCloseCount = 0, lastStateChange = 0\<rparr>,
      onStateChange = Some (\<lambda>oldState newState. None),
      onFailure = Some (\<lambda>error. None),
      onSuccess = Some (\<lambda>result. None)\<rparr>"
  by (simp add: usuariosBreaker_def getBreaker_def newCircuitBreakerManager_def
      newCircuitBreaker_def pagosBreakerOptions_def orNumber_def orString_def Let_def)

text \<open>
  C1. The claim says that after exactly \<open>failureThreshold\<close> consecutive failed \<open>execute\<close>
  calls a breaker that was CLOSED with no failure counted is OPEN, and that the next call
  is rejected with \<open>CircuitBreakerOpenError\<close> without invoking the wrapped call. On the
  breaker of the payment service (threshold 3), three consecutive \<open>execute\<close> calls whose
  wrapped call never settles each fail with \<open>CircuitBreakerTimeoutError\<close>; the breaker is
  still CLOSED after them, and the call that follows is invoked and its value returned.
\<close>

theorem C1_timeouts_do_not_open:
  "state usuariosBreaker = CLOSED \<and> failures usuariosBreaker = 0 \<and>
   failureThreshold usuariosBreaker = 3 \<and>
   outcome (execute 0 NeverSettles usuariosBreaker) = Rejected CircuitBreakerTimeoutError \<and>
   outcome (execute 6000 NeverSettles (executeSequentially [(0, NeverSettles)] usuariosBreaker)) =
     Rejected CircuitBreakerTimeoutError \<and>
   outcome (execute 12000 NeverSettles
      (executeSequentially [(0, NeverSettles), (6000, NeverSettles)] usuariosBreaker)) =
     Rejected CircuitBreakerTimeoutError \<and>
   state (executeSequentially [(0, NeverSettles), (6000, NeverSettles), (12000, NeverSettles)]
      usuariosBreaker) = CLOSED \<and>
   invoked (execute 17001 (Resolves \<lparr>status = 200, data = ''ok''\<rparr> 10)
      (executeSequentially [(0, NeverSettles), (6000, NeverSettles), (12000, NeverSettles)]
         usuariosBreaker)) \<and>
   outcome (execute 17001 (Resolves \<lparr>status = 200, data = ''ok''\<rparr> 10)
      (executeSequentially [(0, NeverSettles), (6000, NeverSettles), (12000, NeverSettles)]
         usuariosBreaker)) = Fulfilled \<lparr>status = 200, data = ''ok''\<rparr>"
  by (simp add: usuariosBreaker_eq execute_def executeWithTimeout_def recordSuccess_def
      catchBlock_def setTimeoutDelay_def Let_def)

text \<open>
  C2. The claim says that a call which does not settle within the timeout makes
  \<open>execute\<close> fail with \<open>CircuitBreakerTimeoutError\<close> and is recorded as a failure. On the
  breaker of the payment service (threshold 3), a call that never settles does make
  \<open>execute\<close> fail with that error, but \<open>failures\<close> and \<open>failedRequests\<close> stay 0, and four
  such calls in a row leave the breaker CLOSED.
\<close>

theorem C2_timeout_not_recorded:
  "failureThreshold usuariosBreaker = 3 \<and>
   outcome (execute 0 NeverSettles usuariosBreaker) = Rejected CircuitBreakerTimeoutError \<and>
   failures (breaker (execute 0 NeverSettles usuariosBreaker)) = 0 \<and>
   failedRequests (metrics (breaker (execute 0 NeverSettles usuariosBreaker))) = 0 \<and>
   state (executeSequentially
      [(0, NeverSettles), (6000, NeverSettles), (12000, NeverSettles), (18000, NeverSettles)]
      usuariosBreaker) = CLOSED"
  by (simp add: execute_never_settles usuariosBreaker_def getBreaker_def
      newCircuitBreakerManager_def newCircuitBreaker_def pagosBreakerOptions_def catchBlock_def
      orNumber_def orString_def Let_def)

subsection \<open>The trial call after the reset timeout\<close>

text \<open>
  Once \<open>nextAttemptTime\<close> has passed, \<open>execute\<close> moves an OPEN breaker to HALF_OPEN and
  invokes the call. A success closes the breaker. A failure re-opens it only when the
  failure count reaches the threshold again; below the threshold the breaker stays
  HALF_OPEN.
\<close>

lemma trial_success_closes:
  assumes "state b = OPEN" and "nextAttemptTime b = Some t" and "t \<le> now"
    and "hookReturns b" and "d < setTimeoutDelay (timeout b)"
  shows "invoked (execute now (Resolves v d) b) \<and>
         state (breaker (execute now (Resolves v d) b)) = CLOSED \<and>
         failures (breaker (execute now (Resolves v d) b)) = 0"
  using assms
  by (auto simp add: execute_def executeWithTimeout_def recordSuccess_def setState_def
      shouldAttemptReset_def hookReturns_def Let_def split: option.splits)

lemma trial_failure_reopens:
  assumes "state b = OPEN" and "nextAttemptTime b = Some t" and "t \<le> now"
    and "hookReturns b" and "d < setTimeoutDelay (timeout b)"
    and "failureThreshold b \<le> failures b + 1"
  shows "invoked (execute now (Rejects e d) b) \<and>
         state (breaker (execute now (Rejects e d) b)) = OPEN \<and>
         nextAttemptTime (breaker (execute now (Rejects e d) b)) =
           Some (now + d + resetTimeout b)"
  using assms
  by (auto simp add: execute_def executeWithTimeout_def recordFailure_def setState_def
      shouldAttemptReset_def hookReturns_def Let_def split: option.splits)

lemma trial_failure_below_threshold:
  assumes "state b = OPEN" and "nextAttemptTime b = Some t" and "t \<le> now"
    and "hookReturns b" and "d < setTimeoutDelay (timeout b)"
    and "failures b + 1 < failureThreshold b"
  shows "state (breaker (execute now (Rejects e d) b)) = HALF_OPEN \<and>
         nextAttemptTime (breaker (execute now (Rejects e d) b)) = None"
  using assms
  by (auto simp add: execute_def executeWithTimeout_def recordFailure_def setState_def
      shouldAttemptReset_def hookReturns_def Let_def split: option.splits)

text \<open>
  After such an opening the failure count is at the threshold, so the trial call behaves
  as the documentation of the breaker says.
\<close>

lemma trial_after_threshold_opening:
  assumes closed: "state b = CLOSED" and zero: "failures b = 0"
    and positive: "0 < failureThreshold b"
    and exactly: "length calls = failureThreshold b"
    and failing: "list_all (rejectsWithin (timeout b)) calls"
    and quiet: "hookReturns b"
    and elapsed: "settledAt (last calls) + resetTimeout b \<le> now"
    and intime: "d < setTimeoutDelay (timeout b)"
  shows "state (breaker (execute now (Resolves v d) (executeSequentially calls b))) = CLOSED \<and>
         failures (breaker (execute now (Resolves v d) (executeSequentially calls b))) = 0 \<and>
         state (breaker (execute now (Rejects e d) (executeSequentially calls b))) = OPEN \<and>
         nextAttemptTime (breaker (execute now (Rejects e d) (executeSequentially calls b))) =
           Some (now + d + resetTimeout b)"
proof -
  let ?b' = "executeSequentially calls b"
  from run_reaches_threshold [OF closed zero positive exactly failing]
  have st: "state ?b' = OPEN" and nxt: "nextAttemptTime ?b' = Some (settledAt (last calls) + resetTimeout b)"
    and cnt: "failureThreshold ?b' \<le> failures ?b' + 1"
    and tm: "timeout ?b' = timeout b" and rt: "resetTimeout ?b' = resetTimeout b"
    and hk: "onStateChange ?b' = onStateChange b"
    by simp_all
  from quiet hk have q: "hookReturns ?b'" by (simp add: hookReturns_def)
  from intime tm have d: "d < setTimeoutDelay (timeout ?b')" by simp
  from trial_success_closes [OF st nxt elapsed q d, of v]
    trial_failure_reopens [OF st nxt elapsed q d cnt, of e]
  show ?thesis by (simp add: rt)
qed


text \<open>
  C3. The claim says that a failed trial call re-opens the breaker, for every breaker that
  entered OPEN. A breaker with threshold 5 that entered OPEN through \<open>forceOpen\<close> with no
  failure counted: the trial call at time 30000 is invoked and rejected, and the breaker
  is left HALF_OPEN with \<open>nextAttemptTime\<close> cleared, not OPEN.
\<close>

theorem C3_half_open_failure_stays_half_open:
  "state (snd (snd (forceOpen 0
      (newCircuitBreaker 0 (gatewayBreakerOptions 5000) :: axios_response CircuitBreaker)))) = OPEN \<and>
   invoked (execute 30000 (Rejects TypeError 10) (snd (snd (forceOpen 0
      (newCircuitBreaker 0 (gatewayBreakerOptions 5000) :: axios_response CircuitBreaker))))) \<and>
   state (breaker (execute 30000 (Rejects TypeError 10) (snd (snd (forceOpen 0
      (newCircuitBreaker 0 (gatewayBreakerOptions 5000) :: axios_response CircuitBreaker)))))) =
     HALF_OPEN \<and>
   nextAttemptTime (breaker (execute 30000 (Rejects TypeError 10) (snd (snd (forceOpen 0
      (newCircuitBreaker 0 (gatewayBreakerOptions 5000) :: axios_response CircuitBreaker)))))) =
     None"
  by (simp add: forceOpen_def setState_def execute_def executeWithTimeout_def recordFailure_def
      shouldAttemptReset_def catchBlock_def newCircuitBreaker_def gatewayBreakerOptions_def
      orNumber_def orString_def setTimeoutDelay_def Let_def)

subsection \<open>The state-change hook\<close>

lemma transitions_append:
  "transitions s xs m \<Longrightarrow> transitions m ys s' \<Longrightarrow> transitions s (xs @ ys) s'"
  by (induction xs arbitrary: s) auto

lemma setState_hook:
  assumes "onStateChange b = Some hook"
  shows "transitions (state b) (fst (snd (setState now s b))) (state (snd (snd (setState now s b)))) \<and>
         onStateChange (snd (snd (setState now s b))) = Some hook"
  using assms by (cases s) (simp_all add: setState_def Let_def)

lemma recordSuccess_hook:
  assumes "onStateChange b = Some hook"
  shows "transitions (state b) (fst (snd (recordSuccess now b)))
           (state (snd (snd (recordSuccess now b)))) \<and>
         onStateChange (snd (snd (recordSuccess now b))) = Some hook"
proof -
  let ?b1 = "b\<lparr>successes := successes b + 1, failures := 0, lastSuccessTime := Some now,
      metrics := (metrics b)\<lparr>successfulRequests := successfulRequests (metrics b) + 1\<rparr>\<rparr>"
  have "onStateChange ?b1 = Some hook" using assms by simp
  from setState_hook [OF this, of now CLOSED] assms show ?thesis
    by (auto simp add: recordSuccess_def Let_def)
qed

lemma recordFailure_hook:
  assumes "onStateChange b = Some hook"
  shows "transitions (state b) (fst (snd (recordFailure now b)))
           (state (snd (snd (recordFailure now b)))) \<and>
         onStateChange (snd (snd (recordFailure now b))) = Some hook"
proof -
  let ?b1 = "b\<lparr>failures := failures b + 1, lastFailureTime := Some now,
      metrics := (metrics b)\<lparr>failedRequests := failedRequests (metrics b) + 1\<rparr>\<rparr>"
  have "onStateChange ?b1 = Some hook" using assms by simp
  from setState_hook [OF this, of now OPEN] assms show ?thesis
    by (auto simp add: recordFailure_def Let_def)
qed

lemma executeWithTimeout_hook:
  assumes "onStateChange b = Some hook"
  shows "transitions (state b) (fst (snd (executeWithTimeout now call b)))
           (state (snd (snd (executeWithTimeout now call b))))"
proof (cases call)
  case (Resolves v d)
  obtain thrown calls b1 where rs: "recordSuccess (now + d) b = (thrown, calls, b1)"
    by (cases "recordSuccess (now + d) b") auto
  obtain thrown2 calls2 b2 where rf: "recordFailure (now + d) b1 = (thrown2, calls2, b2)"
    by (cases "recordFailure (now + d) b1") auto
  from recordSuccess_hook [OF assms, of "now + d"] rs
  have one: "transitions (state b) calls (state b1)" and hook1: "onStateChange b1 = Some hook"
    by simp_all
  from recordFailure_hook [OF hook1, of "now + d"] rf
  have two: "transitions (state b1) calls2 (state b2)" by simp
  from one two have both: "transitions (state b) (calls @ calls2) (state b2)"
    by (rule transitions_append)
  show ?thesis
    using one both
    by (simp add: executeWithTimeout_def Resolves rs rf split: option.splits)
next
  case (Rejects e d)
  obtain thrown calls b1 where rf: "recordFailure (now + d) b = (thrown, calls, b1)"
    by (cases "recordFailure (now + d) b") auto
  from recordFailure_hook [OF assms, of "now + d"] rf
  have "transitions (state b) calls (state b1)" by simp
  then show ?thesis
    by (simp add: executeWithTimeout_def Rejects rf split: option.splits)
next
  case NeverSettles
  then show ?thesis by (simp add: executeWithTimeout_def)
qed

lemma execute_hook:
  assumes "onStateChange b = Some hook"
  shows "transitions (state b) (hookCalls (execute now call b))
           (state (breaker (execute now call b)))"
proof -
  let ?b0 = "b\<lparr>metrics := (metrics b)\<lparr>totalRequests := Suc (totalRequests (metrics b))\<rparr>\<rparr>"
  have hook0: "onStateChange ?b0 = Some hook" using assms by simp
  show ?thesis
  proof (cases "state b = OPEN")
    case False
    obtain p calls2 b2 where ex: "executeWithTimeout now call ?b0 = (p, calls2, b2)"
      by (cases "executeWithTimeout now call ?b0") auto
    from executeWithTimeout_hook [OF hook0, of now call] ex
    have "transitions (state b) calls2 (state b2)" by simp
    with False show ?thesis
      by (cases p) (simp_all add: execute_def Let_def ex)
  next
    case True
    show ?thesis
    proof (cases "shouldAttemptReset now b")
      case False
      with True show ?thesis by (simp add: execute_def Let_def)
    next
      case ready: True
      obtain thrown calls b1 where ss: "setState now HALF_OPEN ?b0 = (thrown, calls, b1)"
        by (cases "setState now HALF_OPEN ?b0") auto
      from setState_hook [OF hook0, of now HALF_OPEN] ss
      have one: "transitions (state b) calls (state b1)" and hook1: "onStateChange b1 = Some hook"
        by simp_all
      obtain p calls2 b2 where ex: "executeWithTimeout now call b1 = (p, calls2, b2)"
        by (cases "executeWithTimeout now call b1") auto
      from executeWithTimeout_hook [OF hook1, of now call] ex
      have "transitions (state b1) calls2 (state b2)" by simp
      with one have both: "transitions (state b) (calls @ calls2) (state b2)"
        by (rule transitions_append)
      show ?thesis
      proof (cases thrown)
        case None
        with True ready both show ?thesis
          by (cases p) (simp_all add: execute_def Let_def ss ex)
      next
        case (Some e)
        with True ready one show ?thesis
          by (simp add: execute_def Let_def ss)
      qed
    qed
  qed
qed

lemma reset_hook:
  assumes "onStateChange b = Some hook"
  shows "transitions (state b) (fst (snd (reset now b))) (state (snd (snd (reset now b))))"
  using setState_hook [of "b\<lparr>failures := 0, successes := 0, lastFailureTime := None,
      lastSuccessTime := None, nextAttemptTime := None\<rparr>" hook now CLOSED] assms
  by (simp add: reset_def)

lemma setState_quiet:
  assumes "\<forall>oldState newState. hook oldState newState = None"
  shows "fst (setState now s (b\<lparr>onStateChange := Some hook\<rparr>)) = None \<and>
         fst (setState now s (b\<lparr>onStateChange := None\<rparr>)) = None \<and>
         snd (snd (setState now s (b\<lparr>onStateChange := Some hook\<rparr>))) =
           (snd (snd (setState now s (b\<lparr>onStateChange := None\<rparr>))))\<lparr>onStateChange := Some hook\<rparr>"
  using assms by (cases s) (simp_all add: setState_def Let_def)

lemma recordSuccess_quiet:
  assumes "\<forall>oldState newState. hook oldState newState = None"
  shows "fst (recordSuccess now (b\<lparr>onStateChange := Some hook\<rparr>)) = None \<and>
         fst (recordSuccess now (b\<lparr>onStateChange := None\<rparr>)) = None \<and>
         snd (snd (recordSuccess now (b\<lparr>onStateChange := Some hook\<rparr>))) =
           (snd (snd (recordSuccess now (b\<lparr>onStateChange := None\<rparr>))))\<lparr>onStateChange := Some hook\<rparr>"
  using assms by (simp add: recordSuccess_def setState_def Let_def)

lemma recordFailure_quiet:
  assumes "\<forall>oldState newState. hook oldState newState = None"
  shows "fst (recordFailure now (b\<lparr>onStateChange := Some hook\<rparr>)) = None \<and>
         fst (recordFailure now (b\<lparr>onStateChange := None\<rparr>)) = None \<and>
         snd (snd (recordFailure now (b\<lparr>onStateChange := Some hook\<rparr>))) =
           (snd (snd (recordFailure now (b\<lparr>onStateChange := None\<rparr>))))\<lparr>onStateChange := Some hook\<rparr>"
  using assms by (simp add: recordFailure_def setState_def Let_def)

lemma executeWithTimeout_quiet:
  assumes "\<forall>oldState newState. hook oldState newState = None"
  shows "fst (executeWithTimeout now call (b\<lparr>onStateChange := Some hook\<rparr>)) =
           fst (executeWithTimeout now call (b\<lparr>onStateChange := None\<rparr>)) \<and>
         snd (snd (executeWithTimeout now call (b\<lparr>onStateChange := Some hook\<rparr>))) =
           (snd (snd (executeWithTimeout now call (b\<lparr>onStateChange := None\<rparr>))))\<lparr>onStateChange := Some hook\<rparr>"
proof (cases call)
  case (Resolves v d)
  from recordSuccess_quiet [OF assms, of "now + d" b] show ?thesis
    by (cases "recordSuccess (now + d) (b\<lparr>onStateChange := Some hook\<rparr>)";
        cases "recordSuccess (now + d) (b\<lparr>onStateChange := None\<rparr>)")
       (simp add: executeWithTimeout_def Resolves)
next
  case (Rejects e d)
  from recordFailure_quiet [OF assms, of "now + d" b] show ?thesis
    by (cases "recordFailure (now + d) (b\<lparr>onStateChange := Some hook\<rparr>)";
        cases "recordFailure (now + d) (b\<lparr>onStateChange := None\<rparr>)")
       (simp add: executeWithTimeout_def Rejects)
next
  case NeverSettles
  then show ?thesis by (simp add: executeWithTimeout_def)
qed

lemma execute_quiet:
  assumes quiet: "\<forall>oldState newState. hook oldState newState = None"
  shows "outcome (execute now call (b\<lparr>onStateChange := Some hook\<rparr>)) =
           outcome (execute now call (b\<lparr>onStateChange := None\<rparr>)) \<and>
         invoked (execute now call (b\<lparr>onStateChange := Some hook\<rparr>)) =
           invoked (execute now call (b\<lparr>onStateChange := None\<rparr>)) \<and>
         breaker (execute now call (b\<lparr>onStateChange := Some hook\<rparr>)) =
           (breaker (execute now call (b\<lparr>onStateChange := None\<rparr>)))\<lparr>onStateChange := Some hook\<rparr>"
proof -
  let ?m = "(metrics b)\<lparr>totalRequests := Suc (totalRequests (metrics b))\<rparr>"
  let ?b0 = "b\<lparr>metrics := ?m\<rparr>"
  show ?thesis
  proof (cases "state b = OPEN")
    case False
    from executeWithTimeout_quiet [OF quiet, of now call ?b0] False show ?thesis
      by (cases b;
          cases "executeWithTimeout now call (?b0\<lparr>onStateChange := Some hook\<rparr>)";
          cases "executeWithTimeout now call (?b0\<lparr>onStateChange := None\<rparr>)";
          cases "fst (executeWithTimeout now call (?b0\<lparr>onStateChange := None\<rparr>))")
         (simp_all add: execute_def Let_def catchBlock_def split: option.splits)
  next
    case True
    show ?thesis
    proof (cases "shouldAttemptReset now b")
      case False
      with True show ?thesis by (simp add: execute_def Let_def shouldAttemptReset_def)
    next
      case ready: True
      let ?h = "snd (snd (setState now HALF_OPEN (?b0\<lparr>onStateChange := None\<rparr>)))"
      from setState_quiet [OF quiet, of now HALF_OPEN ?b0]
      have a: "fst (setState now HALF_OPEN (?b0\<lparr>onStateChange := Some hook\<rparr>)) = None"
        and b: "fst (setState now HALF_OPEN (?b0\<lparr>onStateChange := None\<rparr>)) = None"
        and c: "snd (snd (setState now HALF_OPEN (?b0\<lparr>onStateChange := Some hook\<rparr>))) =
                  ?h\<lparr>onStateChange := Some hook\<rparr>"
        by simp_all
      have d: "?h\<lparr>onStateChange := None\<rparr> = ?h"
        by (simp add: setState_def Let_def)
      from executeWithTimeout_quiet [OF quiet, of now call ?h] d
      have e: "fst (executeWithTimeout now call (?h\<lparr>onStateChange := Some hook\<rparr>)) =
           fst (executeWithTimeout now call ?h) \<and>
         snd (snd (executeWithTimeout now call (?h\<lparr>onStateChange := Some hook\<rparr>))) =
           (snd (snd (executeWithTimeout now call ?h)))\<lparr>onStateChange := Some hook\<rparr>"
        by simp
      from True ready a b c e show ?thesis
        by (cases b;
            cases "setState now HALF_OPEN (?b0\<lparr>onStateChange := Some hook\<rparr>)";
            cases "setState now HALF_OPEN (?b0\<lparr>onStateChange := None\<rparr>)";
            cases "executeWithTimeout now call (?h\<lparr>onStateChange := Some hook\<rparr>)";
            cases "executeWithTimeout now call ?h";
            cases "fst (executeWithTimeout now call ?h)")
           (simp_all add: execute_def Let_def catchBlock_def shouldAttemptReset_def split: option.splits)
    qed
  qed
qed

lemma reset_quiet:
  assumes "\<forall>oldState newState. hook oldState newState = None"
  shows "fst (reset now (b\<lparr>onStateChange := Some hook\<rparr>)) = None \<and>
         snd (snd (reset now (b\<lparr>onStateChange := Some hook\<rparr>))) =
           (snd (snd (reset now (b\<lparr>onStateChange := None\<rparr>))))\<lparr>onStateChange := Some hook\<rparr>"
  using assms by (simp add: reset_def setState_def Let_def)

lemma setState_propagates:
  assumes "state b \<noteq> s"
  shows "fst (setState now s (b\<lparr>onStateChange := Some hook\<rparr>)) = hook (state b) s \<and>
         fst (snd (setState now s (b\<lparr>onStateChange := Some hook\<rparr>))) = [(state b, s)] \<and>
         state (snd (snd (setState now s (b\<lparr>onStateChange := Some hook\<rparr>)))) = s"
  using assms by (cases s) (simp_all add: setState_def Let_def)

lemma execute_hook_throws_half_open:
  assumes "state b = OPEN" and "shouldAttemptReset now b" and "hook OPEN HALF_OPEN = Some e"
  shows "outcome (execute now call (b\<lparr>onStateChange := Some hook\<rparr>)) = Rejected e \<and>
         \<not> invoked (execute now call (b\<lparr>onStateChange := Some hook\<rparr>)) \<and>
         hookCalls (execute now call (b\<lparr>onStateChange := Some hook\<rparr>)) = [(OPEN, HALF_OPEN)] \<and>
         state (breaker (execute now call (b\<lparr>onStateChange := Some hook\<rparr>))) = HALF_OPEN"
  using assms
  by (simp add: execute_def setState_def shouldAttemptReset_def Let_def)

lemma reset_propagates:
  assumes "state b \<noteq> CLOSED"
  shows "fst (reset now (b\<lparr>onStateChange := Some hook\<rparr>)) = hook (state b) CLOSED \<and>
         state (snd (snd (reset now (b\<lparr>onStateChange := Some hook\<rparr>)))) = CLOSED"
  using assms by (simp add: reset_def setState_def Let_def)


lemma openedBreaker_eq:
  "openedBreaker =
     \<lparr>name = ''default'', failureThreshold = 5, timeout = 5000, resetTimeout = 30000,
      monitoringPeriod = 10000, state = OPEN, failures = 5, successes = 0,
      lastFailureTime = Some 410, lastSuccessTime = None, nextAttemptTime = Some 30410,
      metrics = \<lparr>totalRequests = 5, successfulRequests = 0, failedRequests = 5,
                 circuitOpenCount = 1, circuitCloseCount = 0, lastStateChange = 410\<rparr>,
      onStateChange = Some (\<lambda>oldState newState. None),
      onFailure = Some (\<lambda>error. None),
      onSuccess = Some (\<lambda>result. None)\<rparr>"
  by (simp add: openedBreaker_def fiveFailures_def newCircuitBreaker_def gatewayBreakerOptions_def
      orNumber_def orString_def execute_def executeWithTimeout_def recordFailure_def setState_def
      catchBlock_def setTimeoutDelay_def Let_def)

text \<open>
  C4, as stated, fails: a hook that throws changes both the outcome and the state. On the
  opened breaker, after the reset timeout, a call that resolves with 7 is delivered and
  closes the breaker when there is no hook; with a hook that throws, \<open>execute\<close> rejects
  with the hook's error, the call is not invoked and the breaker is left HALF_OPEN.
\<close>

theorem C4_throwing_hook_counterexample:
  "outcome (execute 31000 (Resolves 7 10) (openedBreaker\<lparr>onStateChange := None\<rparr>)) = Fulfilled 7 \<and>
   state (breaker (execute 31000 (Resolves 7 10) (openedBreaker\<lparr>onStateChange := None\<rparr>))) = CLOSED \<and>
   outcome (execute 31000 (Resolves 7 10)
      (openedBreaker\<lparr>onStateChange := Some (\<lambda>oldState newState. Some plainError)\<rparr>)) =
     Rejected plainError \<and>
   \<not> invoked (execute 31000 (Resolves 7 10)
      (openedBreaker\<lparr>onStateChange := Some (\<lambda>oldState newState. Some plainError)\<rparr>)) \<and>
   state (breaker (execute 31000 (Resolves 7 10)
      (openedBreaker\<lparr>onStateChange := Some (\<lambda>oldState newState. Some plainError)\<rparr>))) = HALF_OPEN"
  by (simp add: openedBreaker_eq execute_def executeWithTimeout_def recordSuccess_def setState_def
      shouldAttemptReset_def catchBlock_def setTimeoutDelay_def Let_def)

text \<open>
  C4, amended. With a hook installed, the hook calls made during \<open>execute\<close> and during
  \<open>reset\<close> are exactly the state changes, each reported as \<open>(oldState, newState)\<close>, from the
  state before to the state after; and a hook that returns normally (and, being an
  observer, leaves the breaker it is given alone) changes neither the outcome of \<open>execute\<close>
  nor the breaker \<open>execute\<close> or \<open>reset\<close> leaves, compared with the same breaker without a
  hook. A hook that throws is not isolated: \<open>setState\<close> and \<open>reset\<close> assign the new state
  and then throw what the hook threw; when the hook throws on the change from OPEN to
  HALF_OPEN, \<open>execute\<close> rejects with the hook's error, the wrapped call is not invoked and
  the breaker is left HALF_OPEN.
\<close>

theorem C4_hook_called_on_transitions:
  "transitions (state b) (hookCalls (execute now call (b\<lparr>onStateChange := Some hook\<rparr>)))
     (state (breaker (execute now call (b\<lparr>onStateChange := Some hook\<rparr>)))) \<and>
   transitions (state b) (fst (snd (reset now (b\<lparr>onStateChange := Some hook\<rparr>))))
     (state (snd (snd (reset now (b\<lparr>onStateChange := Some hook\<rparr>))))) \<and>
   ((\<forall>oldState newState. hook oldState newState = None) \<longrightarrow>
      outcome (execute now call (b\<lparr>onStateChange := Some hook\<rparr>)) =
        outcome (execute now call (b\<lparr>onStateChange := None\<rparr>)) \<and>
      invoked (execute now call (b\<lparr>onStateChange := Some hook\<rparr>)) =
        invoked (execute now call (b\<lparr>onStateChange := None\<rparr>)) \<and>
      breaker (execute now call (b\<lparr>onStateChange := Some hook\<rparr>)) =
        (breaker (execute now call (b\<lparr>onStateChange := None\<rparr>)))\<lparr>onStateChange := Some hook\<rparr> \<and>
      fst (reset now (b\<lparr>onStateChange := Some hook\<rparr>)) = None \<and>
      snd (snd (reset now (b\<lparr>onStateChange := Some hook\<rparr>))) =
        (snd (snd (reset now (b\<lparr>onStateChange := None\<rparr>))))\<lparr>onStateChange := Some hook\<rparr>) \<and>
   (state b \<noteq> s \<longrightarrow>
      fst (setState now s (b\<lparr>onStateChange := Some hook\<rparr>)) = hook (state b) s \<and>
      fst (snd (setState now s (b\<lparr>onStateChange := Some hook\<rparr>))) = [(state b, s)] \<and>
      state (snd (snd (setState now s (b\<lparr>onStateChange := Some hook\<rparr>)))) = s) \<and>
   (state b \<noteq> CLOSED \<longrightarrow>
      fst (reset now (b\<lparr>onStateChange := Some hook\<rparr>)) = hook (state b) CLOSED \<and>
      state (snd (snd (reset now (b\<lparr>onStateChange := Some hook\<rparr>)))) = CLOSED) \<and>
   (state b = OPEN \<and> shouldAttemptReset now b \<and> hook OPEN HALF_OPEN = Some e \<longrightarrow>
      outcome (execute now call (b\<lparr>onStateChange := Some hook\<rparr>)) = Rejected e \<and>
      \<not> invoked (execute now call (b\<lparr>onStateChange := Some hook\<rparr>)) \<and>
      hookCalls (execute now call (b\<lparr>onStateChange := Some hook\<rparr>)) = [(OPEN, HALF_OPEN)] \<and>
      state (breaker (execute now call (b\<lparr>onStateChange := Some hook\<rparr>))) = HALF_OPEN)"
proof -
  have installed: "onStateChange (b\<lparr>onStateChange := Some hook\<rparr>) = Some hook" by simp
  from execute_hook [OF installed, of now call]
  have one: "transitions (state b) (hookCalls (execute now call (b\<lparr>onStateChange := Some hook\<rparr>)))
     (state (breaker (execute now call (b\<lparr>onStateChange := Some hook\<rparr>))))"
    by simp
  from reset_hook [OF installed, of now]
  have two: "transitions (state b) (fst (snd (reset now (b\<lparr>onStateChange := Some hook\<rparr>))))
     (state (snd (snd (reset now (b\<lparr>onStateChange := Some hook\<rparr>)))))"
    by simp
  note quiet = execute_quiet [of hook now call b] reset_quiet [of hook now b]
  note thrown = setState_propagates [of b s now hook] reset_propagates [of b now hook]
    execute_hook_throws_half_open [of b now hook e call]
  from one two quiet thrown show ?thesis by blast
qed

theorem C4_hook_called_on_transitions_witness:
  "hookCalls (execute 31000 (Resolves 7 10) openedBreaker) = [(OPEN, HALF_OPEN), (HALF_OPEN, CLOSED)] \<and>
   transitions OPEN (hookCalls (execute 31000 (Resolves 7 10) openedBreaker)) CLOSED \<and>
   outcome (execute 31000 (Resolves 7 10) openedBreaker) =
     outcome (execute 31000 (Resolves 7 10) (openedBreaker\<lparr>onStateChange := None\<rparr>)) \<and>
   outcome (execute 31000 (Resolves 7 10)
      (openedBreaker\<lparr>onStateChange := Some (\<lambda>oldState newState. Some plainError)\<rparr>)) =
     Rejected plainError \<and>
   state (breaker (execute 31000 (Resolves 7 10)
      (openedBreaker\<lparr>onStateChange := Some (\<lambda>oldState newState. Some plainError)\<rparr>))) =
     HALF_OPEN"
proof -
  have same: "openedBreaker\<lparr>onStateChange := Some (\<lambda>oldState newState. None)\<rparr> = openedBreaker"
    by (simp add: openedBreaker_eq)
  have st: "state openedBreaker = OPEN"
    by (simp add: openedBreaker_eq)
  have ready: "shouldAttemptReset 31000 openedBreaker"
    by (simp add: openedBreaker_eq shouldAttemptReset_def)
  have calls: "hookCalls (execute 31000 (Resolves 7 10) openedBreaker) =
      [(OPEN, HALF_OPEN), (HALF_OPEN, CLOSED)]"
    by (simp add: openedBreaker_eq execute_def executeWithTimeout_def recordSuccess_def
        setState_def shouldAttemptReset_def catchBlock_def setTimeoutDelay_def Let_def)
  have final: "state (breaker (execute 31000 (Resolves 7 10) openedBreaker)) = CLOSED"
    by (simp add: openedBreaker_eq execute_def executeWithTimeout_def recordSuccess_def
        setState_def shouldAttemptReset_def catchBlock_def setTimeoutDelay_def Let_def)
  note general = C4_hook_called_on_transitions
    [of openedBreaker 31000 "Resolves 7 10" "\<lambda>oldState newState. None", unfolded same st final]
  from general have chain:
    "transitions OPEN (hookCalls (execute 31000 (Resolves 7 10) openedBreaker)) CLOSED"
    by (rule conjunct1)
  from general have equal: "outcome (execute 31000 (Resolves 7 10) openedBreaker) =
     outcome (execute 31000 (Resolves 7 10) (openedBreaker\<lparr>onStateChange := None\<rparr>))"
    by simp
  note throwing = C4_hook_called_on_transitions
    [of openedBreaker 31000 "Resolves 7 10" "\<lambda>oldState newState. Some plainError" _ plainError]
  from throwing st ready
  have thrown: "outcome (execute 31000 (Resolves 7 10)
      (openedBreaker\<lparr>onStateChange := Some (\<lambda>oldState newState. Some plainError)\<rparr>)) =
     Rejected plainError \<and>
     state (breaker (execute 31000 (Resolves 7 10)
      (openedBreaker\<lparr>onStateChange := Some (\<lambda>oldState newState. Some plainError)\<rparr>))) =
     HALF_OPEN"
    by blast
  from calls chain equal thrown show ?thesis by (intro conjI) simp_all
qed

subsection \<open>Reset\<close>

lemma reset_fields:
  "state (snd (snd (reset now b))) = CLOSED \<and>
   failures (snd (snd (reset now b))) = 0 \<and>
   successes (snd (snd (reset now b))) = 0 \<and>
   nextAttemptTime (snd (snd (reset now b))) = None \<and>
   lastFailureTime (snd (snd (reset now b))) = None \<and>
   lastSuccessTime (snd (snd (reset now b))) = None"
  by (simp add: reset_def setState_def Let_def split: option.splits)

lemma reset_fixpoint:
  assumes "state b = CLOSED" "failures b = 0" "successes b = 0" "nextAttemptTime b = None"
    "lastFailureTime b = None" "lastSuccessTime b = None"
  shows "reset now b = (None, [], b)"
  using assms by (simp add: reset_def setState_def)

text \<open>
  C8. From any breaker, \<open>reset\<close> leaves the state CLOSED, the counters at 0 and
  \<open>nextAttemptTime\<close> cleared; a second \<open>reset\<close>, at any later time, returns normally, calls
  no hook and leaves the breaker exactly as the first one left it.
\<close>

theorem C8_reset_idempotent:
  "state (snd (snd (reset now b))) = CLOSED \<and>
   failures (snd (snd (reset now b))) = 0 \<and>
   successes (snd (snd (reset now b))) = 0 \<and>
   nextAttemptTime (snd (snd (reset now b))) = None \<and>
   reset later (snd (snd (reset now b))) = (None, [], snd (snd (reset now b)))"
  using reset_fields [of now b] reset_fixpoint [of "snd (snd (reset now b))" later]
  by simp

subsection \<open>Missing callbacks\<close>

text \<open>
  C9. A breaker without \<open>onSuccess\<close> and \<open>onFailure\<close> (as the constructor builds it when
  the options give none), on a call that is let through and resolves before the timer:
  \<open>execute\<close> rejects with a \<open>TypeError\<close>, so the value is not returned, yet the success is
  counted in \<open>successes\<close>, \<open>successfulRequests\<close> and \<open>totalRequests\<close>. The breaker is
  CLOSED, or its hook returns normally (there is none by default).
\<close>

theorem C9_default_callbacks_throw:
  assumes "onSuccess b = None" and "onFailure b = None"
    and "d < setTimeoutDelay (timeout b)"
    and "state b = OPEN \<longrightarrow> shouldAttemptReset now b"
    and "state b = CLOSED \<or> hookReturns b"
  shows "outcome (execute now (Resolves v d) b) = Rejected TypeError \<and>
         invoked (execute now (Resolves v d) b) \<and>
         successes (breaker (execute now (Resolves v d) b)) = successes b + 1 \<and>
         failures (breaker (execute now (Resolves v d) b)) = 0 \<and>
         lastSuccessTime (breaker (execute now (Resolves v d) b)) = Some (now + d) \<and>
         successfulRequests (metrics (breaker (execute now (Resolves v d) b))) =
           successfulRequests (metrics b) + 1 \<and>
         totalRequests (metrics (breaker (execute now (Resolves v d) b))) =
           totalRequests (metrics b) + 1"
proof (cases "state b")
  case CLOSED
  with assms(1-3) show ?thesis
    by (simp add: execute_def executeWithTimeout_def recordSuccess_def catchBlock_def Let_def)
next
  case OPEN
  with assms show ?thesis
    by (auto simp add: execute_def executeWithTimeout_def recordSuccess_def catchBlock_def Let_def
        setState_def hookReturns_def split: option.splits)
next
  case HALF_OPEN
  with assms show ?thesis
    by (auto simp add: execute_def executeWithTimeout_def recordSuccess_def catchBlock_def Let_def
        setState_def hookReturns_def split: option.splits)
qed

theorem C9_default_callbacks_throw_witness:
  "outcome (execute 0 (Resolves (7::nat) 10) (newCircuitBreaker 0 noOptions)) = Rejected TypeError \<and>
   successes (breaker (execute 0 (Resolves (7::nat) 10) (newCircuitBreaker 0 noOptions))) = 1 \<and>
   successfulRequests (metrics (breaker (execute 0 (Resolves (7::nat) 10)
     (newCircuitBreaker 0 noOptions)))) = 1"
proof -
  let ?b = "newCircuitBreaker 0 noOptions :: nat CircuitBreaker"
  have h1: "onSuccess ?b = None" and h2: "onFailure ?b = None"
    by (simp_all add: newCircuitBreaker_def noOptions_def)
  have h3: "10 < setTimeoutDelay (timeout ?b)"
    by (simp add: newCircuitBreaker_def noOptions_def orNumber_def setTimeoutDelay_def)
  have h4: "state ?b = OPEN \<longrightarrow> shouldAttemptReset 0 ?b"
    by (simp add: newCircuitBreaker_def)
  have h5: "state ?b = CLOSED \<or> hookReturns ?b"
    by (simp add: newCircuitBreaker_def)
  from C9_default_callbacks_throw [OF h1 h2 h3 h4 h5, of 7]
  show ?thesis by (simp add: newCircuitBreaker_def)
qed

section \<open>Properties of the retry loop\<close>

lemma isRetryableError_status:
  "error_response_status e = Some s \<Longrightarrow> isRetryableError e \<longleftrightarrow> 500 \<le> s"
  by (simp add: isRetryableError_def)

text \<open>
  C5. When the first two \<open>axios\<close> calls are rejected with a response of status 500 and
  the third resolves, \<open>makeRequestWithRetry\<close> with \<open>retries = 3\<close> (also the default)
  resolves with that value after exactly 3 attempts, having slept 1000 ms and then 2000 ms
  between them.
\<close>

theorem C5_two_500_then_success:
  assumes "axios 0 = Rejects e0 d0" and "error_response_status e0 = Some 500"
    and "axios 1 = Rejects e1 d1" and "error_response_status e1 = Some 500"
    and "axios 2 = Resolves v d2"
  shows "makeRequestWithRetry axios (Some 3) =
           \<lparr>settled = Resolves v (d0 + 1000 + d1 + 2000 + d2), attempts = 3,
            delays = [1000, 2000]\<rparr> \<and>
         makeRequestWithRetry axios None = makeRequestWithRetry axios (Some 3)"
  using assms
  by (simp add: makeRequestWithRetry_def isRetryableError_status setTimeoutDelay_def
      numeral_2_eq_2 add.assoc)

theorem C5_two_500_then_success_witness:
  "makeRequestWithRetry
     (\<lambda>i. if i < 2
          then Rejects \<lparr>error_name = ''AxiosError'', error_code = Some ''ERR_BAD_RESPONSE'',
                        error_response_status = Some 500\<rparr> 40
          else Resolves \<lparr>status = 200, data = ''ok''\<rparr> 30) (Some 3) =
     \<lparr>settled = Resolves \<lparr>status = 200, data = ''ok''\<rparr> 3110, attempts = 3,
      delays = [1000, 2000]\<rparr>"
  using C5_two_500_then_success
    [of "\<lambda>i. if i < 2
          then Rejects \<lparr>error_name = ''AxiosError'', error_code = Some ''ERR_BAD_RESPONSE'',
                        error_response_status = Some 500\<rparr> 40
          else Resolves \<lparr>status = 200, data = ''ok''\<rparr> 30"
        "\<lparr>error_name = ''AxiosError'', error_code = Some ''ERR_BAD_RESPONSE'',
          error_response_status = Some 500\<rparr>" 40
        "\<lparr>error_name = ''AxiosError'', error_code = Some ''ERR_BAD_RESPONSE'',
          error_response_status = Some 500\<rparr>" 40
        "\<lparr>status = 200, data = ''ok''\<rparr>" 30]
  by simp

text \<open>
  C6. When the first \<open>axios\<close> call is rejected with a response of status below 500 (a 4xx
  in particular), \<open>makeRequestWithRetry\<close> makes that one attempt and rejects with the same
  error at once, without sleeping, whatever \<open>retries\<close> is. An error is retryable exactly
  when it has a response of status 500 or more, or has no response and its code is
  \<open>ECONNREFUSED\<close>, \<open>ETIMEDOUT\<close> or \<open>ENOTFOUND\<close>.
\<close>

theorem C6_client_error_not_retried:
  assumes "axios 0 = Rejects e d" and "error_response_status e = Some s" and "s < 500"
  shows "makeRequestWithRetry axios retries =
           \<lparr>settled = Rejects e d, attempts = 1, delays = []\<rparr> \<and>
         (\<forall>error. isRetryableError error \<longleftrightarrow>
            (\<exists>httpStatus. error_response_status error = Some httpStatus \<and> 500 \<le> httpStatus) \<or>
            (error_response_status error = None \<and>
             (error_code error = Some ''ECONNREFUSED'' \<or> error_code error = Some ''ETIMEDOUT'' \<or>
              error_code error = Some ''ENOTFOUND'')))"
proof -
  have "\<not> isRetryableError e" using assms(2,3) by (simp add: isRetryableError_status)
  with assms(1) have run: "makeRequestWithRetry axios retries =
           \<lparr>settled = Rejects e d, attempts = 1, delays = []\<rparr>"
    by (simp add: makeRequestWithRetry_def)
  have "isRetryableError error \<longleftrightarrow>
            (\<exists>httpStatus. error_response_status error = Some httpStatus \<and> 500 \<le> httpStatus) \<or>
            (error_response_status error = None \<and>
             (error_code error = Some ''ECONNREFUSED'' \<or> error_code error = Some ''ETIMEDOUT'' \<or>
              error_code error = Some ''ENOTFOUND''))" for error
    by (auto simp add: isRetryableError_def split: option.splits)
  with run show ?thesis by blast
qed

theorem C6_client_error_not_retried_witness:
  "makeRequestWithRetry
     (\<lambda>i. Rejects \<lparr>error_name = ''AxiosError'', error_code = Some ''ERR_BAD_REQUEST'',
                    error_response_status = Some 404\<rparr> 40 :: axios_response async) (Some 3) =
     \<lparr>settled = Rejects \<lparr>error_name = ''AxiosError'', error_code = Some ''ERR_BAD_REQUEST'',
                           error_response_status = Some 404\<rparr> 40,
      attempts = 1, delays = []\<rparr>"
  using C6_client_error_not_retried
    [of "\<lambda>i. Rejects \<lparr>error_name = ''AxiosError'', error_code = Some ''ERR_BAD_REQUEST'',
                    error_response_status = Some 404\<rparr> 40 :: axios_response async"
        "\<lparr>error_name = ''AxiosError'', error_code = Some ''ERR_BAD_REQUEST'',
          error_response_status = Some 404\<rparr>" 40 404 "Some 3"]
  by simp

section \<open>Properties of the rate limiter\<close>

lemma rateLimit_opens_window:
  assumes "case rateLimitStore gw (clientIdOf req) of None \<Rightarrow> True | Some entry \<Rightarrow> resetTime entry < now"
  shows "rateLimit now req gw =
           (Next, gw\<lparr>rateLimitStore :=
                      (rateLimitStore gw)(clientIdOf req \<mapsto> \<lparr>count = 1, resetTime = now + windowMs\<rparr>)\<rparr>)"
  using assms
  by (simp add: rateLimit_def Let_def maxRequests_def split: option.splits)

lemma rateLimit_within_window:
  assumes "rateLimitStore gw (clientIdOf req) = Some \<lparr>count = k, resetTime = r\<rparr>"
    and "now \<le> r" and "k < maxRequests"
  shows "rateLimit now req gw =
           (Next, gw\<lparr>rateLimitStore :=
                      (rateLimitStore gw)(clientIdOf req \<mapsto> \<lparr>count = k + 1, resetTime = r\<rparr>)\<rparr>)"
  using assms by (simp add: rateLimit_def Let_def)

lemma rateLimit_exceeded:
  assumes "rateLimitStore gw (clientIdOf req) = Some \<lparr>count = k, resetTime = r\<rparr>"
    and "now \<le> r" and "maxRequests \<le> k"
  shows "rateLimit now req gw =
           (Responded \<lparr>statusCode = 429,
                       body = RateLimitJson ''Rate limit exceeded'' (ceilDiv (int r - int now) 1000)\<rparr>,
            gw)"
proof -
  have "gw\<lparr>rateLimitStore := (rateLimitStore gw)(clientIdOf req \<mapsto> \<lparr>count = k, resetTime = r\<rparr>)\<rparr> = gw"
    using assms(1) by (simp add: fun_upd_idem)
  with assms show ?thesis by (simp add: rateLimit_def Let_def)
qed

lemma rateLimitAll_within_window:
  assumes "rateLimitStore gw (clientIdOf req) = Some \<lparr>count = k, resetTime = r\<rparr>"
    and "list_all (\<lambda>now. now \<le> r) ts" and "k + length ts \<le> maxRequests"
  shows "rateLimitAll ts req gw =
           (replicate (length ts) Next,
            gw\<lparr>rateLimitStore :=
                 (rateLimitStore gw)(clientIdOf req \<mapsto> \<lparr>count = k + length ts, resetTime = r\<rparr>)\<rparr>)"
  using assms
proof (induction ts arbitrary: gw k)
  case Nil
  then show ?case by (simp add: fun_upd_idem)
next
  case (Cons now rest)
  let ?gw1 = "gw\<lparr>rateLimitStore :=
                      (rateLimitStore gw)(clientIdOf req \<mapsto> \<lparr>count = k + 1, resetTime = r\<rparr>)\<rparr>"
  from Cons.prems have step: "rateLimit now req gw = (Next, ?gw1)"
    by (intro rateLimit_within_window) simp_all
  have ih: "rateLimitAll rest req ?gw1 =
           (replicate (length rest) Next,
            ?gw1\<lparr>rateLimitStore :=
                 (rateLimitStore ?gw1)(clientIdOf req \<mapsto> \<lparr>count = (k + 1) + length rest, resetTime = r\<rparr>)\<rparr>)"
    using Cons.prems by (intro Cons.IH) simp_all
  have same: "?gw1\<lparr>rateLimitStore :=
                 (rateLimitStore ?gw1)(clientIdOf req \<mapsto> \<lparr>count = (k + 1) + length rest, resetTime = r\<rparr>)\<rparr> =
              gw\<lparr>rateLimitStore :=
                 (rateLimitStore gw)(clientIdOf req \<mapsto> \<lparr>count = k + length (now # rest), resetTime = r\<rparr>)\<rparr>"
    by simp
  show ?case
    by (simp only: rateLimitAll.simps step ih same prod.case length_Cons replicate_Suc)
qed

lemma ceilDiv_pos: "0 < a \<Longrightarrow> 0 < ceilDiv a 1000"
  unfolding ceilDiv_def by linarith

text \<open>
  C7, as stated, fails at the last instant of the window: a client's 101st request
  arriving exactly at the reset time is still inside the window (the window has elapsed
  only when \<open>now > resetTime\<close>) and is answered 429 with \<open>retryAfter = 0\<close>.
\<close>

theorem C7_retry_after_zero_counterexample:
  "fst (rateLimit 900000 \<lparr>ip = Some ''10.0.0.1''\<rparr>
         (snd (rateLimitAll (0 # replicate 99 0) \<lparr>ip = Some ''10.0.0.1''\<rparr> (newGatewayService 0)))) =
     Responded \<lparr>statusCode = 429, body = RateLimitJson ''Rate limit exceeded'' 0\<rparr>"
proof -
  let ?req = "\<lparr>ip = Some ''10.0.0.1''\<rparr>"
  let ?gw = "newGatewayService 0"
  let ?c = "clientIdOf ?req"
  let ?gw1 = "?gw\<lparr>rateLimitStore :=
                 (rateLimitStore ?gw)(?c \<mapsto> \<lparr>count = 1, resetTime = 0 + windowMs\<rparr>)\<rparr>"
  have "rateLimitStore ?gw ?c = None" by (simp add: newGatewayService_def Let_def)
  then have first: "rateLimit 0 ?req ?gw = (Next, ?gw1)"
    by (intro rateLimit_opens_window) simp
  have entry1: "rateLimitStore ?gw1 ?c = Some \<lparr>count = 1, resetTime = 0 + windowMs\<rparr>"
    by simp
  have rest: "rateLimitAll (replicate 99 0) ?req ?gw1 =
      (replicate (length (replicate 99 (0::nat))) Next,
       ?gw1\<lparr>rateLimitStore :=
          (rateLimitStore ?gw1)(?c \<mapsto> \<lparr>count = 1 + length (replicate 99 (0::nat)),
                                          resetTime = 0 + windowMs\<rparr>)\<rparr>)"
    by (rule rateLimitAll_within_window [OF entry1]) (simp_all add: maxRequests_def list_all_iff)
  let ?gw100 = "?gw1\<lparr>rateLimitStore :=
          (rateLimitStore ?gw1)(?c \<mapsto> \<lparr>count = 1 + length (replicate 99 (0::nat)),
                                          resetTime = 0 + windowMs\<rparr>)\<rparr>"
  have run: "snd (rateLimitAll (0 # replicate 99 0) ?req ?gw) = ?gw100"
    by (simp only: rateLimitAll.simps first rest prod.case snd_conv)
  have entry100: "rateLimitStore ?gw100 ?c = Some \<lparr>count = 100, resetTime = 900000\<rparr>"
    by (simp add: windowMs_def)
  have "rateLimit 900000 ?req ?gw100 =
      (Responded \<lparr>statusCode = 429,
                  body = RateLimitJson ''Rate limit exceeded'' (ceilDiv (int 900000 - int 900000) 1000)\<rparr>,
       ?gw100)"
    by (rule rateLimit_exceeded [OF entry100]) (simp_all add: maxRequests_def)
  then show ?thesis
    unfolding run by (simp add: ceilDiv_def)
qed

text \<open>
  C7, amended. A client whose window opens at \<open>start\<close> (no entry yet, or an entry whose
  window has elapsed): the first 100 requests up to the reset time \<open>start + windowMs\<close> all
  call \<open>next\<close>; a further request up to the reset time is answered 429, leaves the store
  as it is and runs no later middleware, with \<open>retryAfter > 0\<close> when it arrives before the
  reset time; a request after the reset time passes and restarts the count (0, then 1 for
  that request) in a new window.
\<close>

theorem C7_rate_limit_window:
  assumes fresh: "case rateLimitStore gw (clientIdOf req) of
                    None \<Rightarrow> True | Some entry \<Rightarrow> resetTime entry < start"
    and later: "length later = 99"
    and within: "list_all (\<lambda>now. now \<le> start + windowMs) later"
  shows "fst (rateLimitAll (start # later) req gw) = replicate 100 Next \<and>
         (\<forall>now rest. now \<le> start + windowMs \<longrightarrow>
            executeMiddleware ((''rateLimit'', rateLimit now) # rest) req
                (snd (rateLimitAll (start # later) req gw)) =
              ([''rateLimit''],
               Responded \<lparr>statusCode = 429,
                          body = RateLimitJson ''Rate limit exceeded''
                                   (ceilDiv (int (start + windowMs) - int now) 1000)\<rparr>,
               snd (rateLimitAll (start # later) req gw))) \<and>
         (\<forall>now. now < start + windowMs \<longrightarrow>
            0 < ceilDiv (int (start + windowMs) - int now) 1000) \<and>
         (\<forall>now. start + windowMs < now \<longrightarrow>
            fst (rateLimit now req (snd (rateLimitAll (start # later) req gw))) = Next \<and>
            rateLimitStore (snd (rateLimit now req (snd (rateLimitAll (start # later) req gw))))
                (clientIdOf req) =
              Some \<lparr>count = 1, resetTime = now + windowMs\<rparr>)"
proof -
  let ?c = "clientIdOf req"
  let ?gw1 = "gw\<lparr>rateLimitStore :=
                 (rateLimitStore gw)(?c \<mapsto> \<lparr>count = 1, resetTime = start + windowMs\<rparr>)\<rparr>"
  let ?gw100 = "gw\<lparr>rateLimitStore :=
                 (rateLimitStore gw)(?c \<mapsto> \<lparr>count = 100, resetTime = start + windowMs\<rparr>)\<rparr>"
  have first: "rateLimit start req gw = (Next, ?gw1)"
    by (rule rateLimit_opens_window [OF fresh])
  have entry1: "rateLimitStore ?gw1 ?c = Some \<lparr>count = 1, resetTime = start + windowMs\<rparr>"
    by simp
  have "1 + length later \<le> maxRequests"
    by (simp add: later maxRequests_def)
  from rateLimitAll_within_window [OF entry1 within this]
  have rest: "rateLimitAll later req ?gw1 =
      (replicate 99 Next,
       ?gw1\<lparr>rateLimitStore :=
          (rateLimitStore ?gw1)(?c \<mapsto> \<lparr>count = 1 + 99, resetTime = start + windowMs\<rparr>)\<rparr>)"
    by (simp only: later)
  have same: "?gw1\<lparr>rateLimitStore :=
          (rateLimitStore ?gw1)(?c \<mapsto> \<lparr>count = 1 + 99, resetTime = start + windowMs\<rparr>)\<rparr> =
        ?gw100"
    by simp
  have hundred: "replicate 100 Next = Next # replicate 99 Next"
    by (simp add: numeral_eq_Suc)
  have run: "rateLimitAll (start # later) req gw = (replicate 100 Next, ?gw100)"
    by (simp only: rateLimitAll.simps first rest same prod.case hundred)
  have entry100: "rateLimitStore ?gw100 ?c = Some \<lparr>count = 100, resetTime = start + windowMs\<rparr>"
    by simp
  have exceeded: "executeMiddleware ((''rateLimit'', rateLimit now) # others) req ?gw100 =
              ([''rateLimit''],
               Responded \<lparr>statusCode = 429,
                          body = RateLimitJson ''Rate limit exceeded''
                                   (ceilDiv (int (start + windowMs) - int now) 1000)\<rparr>,
               ?gw100)" if "now \<le> start + windowMs" for now others
    using rateLimit_exceeded [OF entry100 that] by (simp add: maxRequests_def)
  have positive: "0 < ceilDiv (int (start + windowMs) - int now) 1000"
    if "now < start + windowMs" for now
    using that by (intro ceilDiv_pos) simp
  have elapsed: "fst (rateLimit now req ?gw100) = Next \<and>
            rateLimitStore (snd (rateLimit now req ?gw100)) ?c =
              Some \<lparr>count = 1, resetTime = now + windowMs\<rparr>"
    if "start + windowMs < now" for now
  proof -
    have "case rateLimitStore ?gw100 ?c of None \<Rightarrow> True | Some entry \<Rightarrow> resetTime entry < now"
      using that by simp
    from rateLimit_opens_window [OF this] show ?thesis by simp
  qed
  from exceeded positive elapsed show ?thesis
    unfolding run fst_conv snd_conv by blast
qed

theorem C7_rate_limit_window_witness:
  "fst (rateLimitAll (0 # replicate 99 5) \<lparr>ip = Some ''10.0.0.1''\<rparr> (newGatewayService 0)) =
     replicate 100 Next \<and>
   fst (snd (executeMiddleware
     [(''rateLimit'', rateLimit 600000), (''auth'', \<lambda>req gw. (Next, gw))] \<lparr>ip = Some ''10.0.0.1''\<rparr>
     (snd (rateLimitAll (0 # replicate 99 5) \<lparr>ip = Some ''10.0.0.1''\<rparr> (newGatewayService 0))))) =
     Responded \<lparr>statusCode = 429, body = RateLimitJson ''Rate limit exceeded'' 300\<rparr> \<and>
   fst (rateLimit 900001 \<lparr>ip = Some ''10.0.0.1''\<rparr>
     (snd (rateLimitAll (0 # replicate 99 5) \<lparr>ip = Some ''10.0.0.1''\<rparr> (newGatewayService 0)))) =
     Next"
proof -
  let ?req = "\<lparr>ip = Some ''10.0.0.1''\<rparr>"
  let ?gw = "newGatewayService 0"
  have h1: "case rateLimitStore ?gw (clientIdOf ?req) of
              None \<Rightarrow> True | Some entry \<Rightarrow> resetTime entry < 0"
    by (simp add: newGatewayService_def Let_def)
  have h2: "length (replicate 99 (5::nat)) = 99" by simp
  have h3: "list_all (\<lambda>now. now \<le> 0 + windowMs) (replicate 99 5)"
    by (simp add: list_all_iff windowMs_def)
  note run = C7_rate_limit_window [OF h1 h2 h3]
  have passed: "fst (rateLimitAll (0 # replicate 99 5) ?req ?gw) = replicate 100 Next"
    using run by (rule conjunct1)
  have limited: "executeMiddleware
      [(''rateLimit'', rateLimit 600000), (''auth'', \<lambda>req gw. (Next, gw))] ?req
      (snd (rateLimitAll (0 # replicate 99 5) ?req ?gw)) =
     ([''rateLimit''],
      Responded \<lparr>statusCode = 429,
                 body = RateLimitJson ''Rate limit exceeded''
                          (ceilDiv (int (0 + windowMs) - int 600000) 1000)\<rparr>,
      snd (rateLimitAll (0 # replicate 99 5) ?req ?gw))"
    using run [THEN conjunct2, THEN conjunct1, rule_format, of 600000
        "[(''auth'', \<lambda>req gw. (Next, gw))]"]
    by (simp add: windowMs_def)
  have again: "fst (rateLimit 900001 ?req (snd (rateLimitAll (0 # replicate 99 5) ?req ?gw))) = Next"
    using run [THEN conjunct2, THEN conjunct2, THEN conjunct2, rule_format, of 900001]
    by (simp add: windowMs_def)
  have "ceilDiv (int (0 + windowMs) - int 600000) 1000 = 300"
    by (simp add: ceilDiv_def windowMs_def)
  with passed limited again show ?thesis by simp
qed

section \<open>Properties of request forwarding\<close>

text \<open>
  A name for which \<open>this.services[serviceName]\<close> is \<open>undefined\<close> is answered 404 and the
  gateway is left as it was.
\<close>

lemma processRequest_undefined:
  assumes "getProperty (services gw) serviceName = Undefined"
  shows "processRequest now serviceName axios gw =
           (Some \<lparr>statusCode = 404, body = ErrorJson ''Servicio no encontrado'' None None\<rparr>, gw)"
  using assms by (simp add: processRequest_def)

lemma newGatewayService_breakers:
  "map fst (breakers (circuitBreakerManager (newGatewayService now))) =
     [''usuarios'', ''pagos'', ''catalogo'']"
  by (simp add: newGatewayService_def Let_def getBreaker_def newCircuitBreakerManager_def
      updateGlobalMetrics_def)

text \<open>
  C10. The claim says that every name that is not a configured service is answered 404
  without creating or consulting a breaker. The name \<open>constructor\<close> is not a configured
  service, but \<open>this.services['constructor']\<close> is the inherited \<open>Object\<close> function: the
  request is not answered 404 (here 500, the call being rejected), a fourth breaker named
  \<open>constructor\<close> is created in the manager, and its \<open>totalRequests\<close> is 1.
\<close>

theorem C10_inherited_key_creates_breaker:
  "map_of (services (newGatewayService 0)) ''constructor'' = None \<and>
   fst (processRequest 1000 ''constructor'' (\<lambda>i. Rejects TypeError 5) (newGatewayService 0)) =
     Some \<lparr>statusCode = 500, body = ErrorJson ''Error interno del gateway'' None None\<rparr> \<and>
   map fst (breakers (circuitBreakerManager
     (snd (processRequest 1000 ''constructor'' (\<lambda>i. Rejects TypeError 5) (newGatewayService 0))))) =
     [''usuarios'', ''pagos'', ''catalogo'', ''constructor''] \<and>
   map (\<lambda>entry. totalRequests (metrics (snd entry))) (breakers (circuitBreakerManager
     (snd (processRequest 1000 ''constructor'' (\<lambda>i. Rejects TypeError 5) (newGatewayService 0))))) =
     [0, 0, 0, 1]"
  by (simp add: processRequest_def getProperty_def objectPrototypeKeys_def newGatewayService_def
      Let_def getBreaker_def newCircuitBreakerManager_def updateGlobalMetrics_def storeBreaker_def
      newCircuitBreaker_def noOptions_def gatewayBreakerOptions_def orNumber_def orString_def
      execute_def executeWithTimeout_def recordFailure_def catchBlock_def makeServiceRequest_def
      makeRequestWithRetry_def isRetryableError_def TypeError_def errorReply_def
      setTimeoutDelay_def)

end
